theory Spec2Isabelle
  imports Main "HOL-Library.Word"
begin

unbundle bit_operations_syntax

section \<open>The code buffer\<close>

text \<open>
  A block's code is the byte sequence held by \<open>sblock->data\<close>.  Addresses and sizes are
  \<open>sieve_size_t\<close> (\<open>size_t\<close>); they are natural numbers here, and the two places where the
  source computes with them in a way that can wrap (a difference, and the sum of the program
  counter and a signed offset) go through \<open>size_t_wrap\<close>, the arithmetic of a 64-bit
  \<open>size_t\<close>.  \<open>int\<close> and \<open>unsigned int\<close> are 32-bit words.

  \<open>sieve_number_t\<close> is declared in a header that is not among the sources, so its size in
  bytes is a parameter \<open>sz\<close> of every function that uses it; a number is a natural number
  and the one operation on it that can overflow, the left shift, is reduced modulo
  \<open>2 ^ (8 * sz)\<close>.
\<close>

type_synonym byte = "8 word"
type_synonym sieve_size_t = nat
type_synonym sieve_number_t = nat

definition size_t_wrap :: "int \<Rightarrow> nat" where
  "size_t_wrap i = nat (i mod 2 ^ 64)"

text \<open>The buffer library: \<open>buffer_append\<close> adds at the end; \<open>buffer_write\<close> stores at a
  position, growing the buffer (zero filled) when the position lies behind its end.\<close>

definition buffer_append :: "byte list \<Rightarrow> byte list \<Rightarrow> byte list" where
  "buffer_append buf bytes = buf @ bytes"

definition buffer_write :: "byte list \<Rightarrow> nat \<Rightarrow> byte list \<Rightarrow> byte list" where
  "buffer_write buf pos bytes =
     take pos (buf @ replicate (pos - length buf) 0) @ bytes @ drop (pos + length bytes) buf"

section \<open>Emission\<close>

definition emit_data_raw :: "byte list \<Rightarrow> byte list \<Rightarrow> byte list" where
  "emit_data_raw sblock bytes = buffer_append sblock bytes"

definition update_data_raw :: "byte list \<Rightarrow> sieve_size_t \<Rightarrow> byte list \<Rightarrow> byte list" where
  "update_data_raw sblock address bytes = buffer_write sblock address bytes"

text \<open>Every emit function returns the block as it is afterwards and the address it wrote at.\<close>

definition sieve_binary_emit_data :: "byte list \<Rightarrow> byte list \<Rightarrow> byte list \<times> sieve_size_t" where
  "sieve_binary_emit_data sblock bytes = (emit_data_raw sblock bytes, length sblock)"

definition sieve_binary_emit_byte :: "byte list \<Rightarrow> byte \<Rightarrow> byte list \<times> sieve_size_t" where
  "sieve_binary_emit_byte sblock b = (emit_data_raw sblock [b], length sblock)"

definition sieve_binary_update_data :: "byte list \<Rightarrow> sieve_size_t \<Rightarrow> byte list \<Rightarrow> byte list" where
  "sieve_binary_update_data sblock address bytes = update_data_raw sblock address bytes"

text \<open>\<open>(char) (offset >> (i * 8))\<close> on an \<open>int\<close>: the arithmetic shift, cut to a byte.\<close>

definition offset_byte :: "32 word \<Rightarrow> nat \<Rightarrow> byte" where
  "offset_byte offset i = ucast (signed_drop_bit (i * 8) offset)"

definition sieve_binary_emit_offset :: "byte list \<Rightarrow> 32 word \<Rightarrow> byte list \<times> sieve_size_t" where
  "sieve_binary_emit_offset sblock offset =
     (foldl (\<lambda>b i. emit_data_raw b [offset_byte offset i]) sblock [3, 2, 1, 0], length sblock)"

text \<open>\<open>int offset = size - address\<close>: the difference of two \<open>size_t\<close>, cut to 32 bits.\<close>

definition sieve_binary_resolve_offset :: "byte list \<Rightarrow> sieve_size_t \<Rightarrow> byte list" where
  "sieve_binary_resolve_offset sblock address =
     (let offset = (of_nat (size_t_wrap (int (length sblock) - int address)) :: 32 word)
      in foldl (\<lambda>b i. update_data_raw b (address + 3 - i) [offset_byte offset i]) sblock [3, 2, 1, 0])"

text \<open>
  \<open>sieve_binary_emit_integer\<close> fills \<open>char buffer[sizeof(sieve_number_t) + 1]\<close> from its last
  cell downwards.  The loop state is the rest of the number, \<open>bufpos\<close>, and the cells filled so
  far (\<open>buffer[bufpos + 1]\<close> up to the last one).  The loop does not look at \<open>bufpos\<close>: a
  store at a negative \<open>bufpos\<close> goes to the memory in front of the array, from where the
  group is emitted with the others.  The last component of the state, and of the result of
  every function that emits a number, says whether such a store outside the array was made.
\<close>

function emit_integer_loop ::
  "sieve_number_t \<Rightarrow> int \<Rightarrow> byte list \<Rightarrow> bool \<Rightarrow> int \<times> byte list \<times> bool" where
  "emit_integer_loop integer bufpos buffer over =
     (if integer > 0 then
        emit_integer_loop (drop_bit 7 integer) (bufpos - 1)
          (of_nat (integer AND 0x7F) # buffer) (over \<or> bufpos < 0)
      else (bufpos, buffer, over))"
  by pat_completeness auto
termination
  by (relation "measure (\<lambda>(integer, bufpos, buffer, over). integer)") (auto simp: drop_bit_eq_div)

definition sieve_binary_emit_integer ::
  "nat \<Rightarrow> byte list \<Rightarrow> sieve_number_t \<Rightarrow> byte list \<times> sieve_size_t \<times> bool" where
  "sieve_binary_emit_integer sz sblock integer =
     (let address = length sblock;
          bufpos = int (sz + 1) - 1
      in case emit_integer_loop (drop_bit 7 integer) (bufpos - 1) [of_nat (integer AND 0x7F)] False of
           (bufpos, buffer, over) \<Rightarrow>
             (let bufpos = bufpos + 1;
                  buffer = (if int (sz + 1) - bufpos > 1
                            then map (\<lambda>b. b OR 0x80) (butlast buffer) @ [last buffer]
                            else buffer)
              in (emit_data_raw sblock buffer, address, over)))"

text \<open>\<open>(sieve_number_t) size\<close>: the size cut to the width of a number.\<close>

definition sieve_binary_emit_dynamic_data ::
  "nat \<Rightarrow> byte list \<Rightarrow> byte list \<Rightarrow> byte list \<times> sieve_size_t \<times> bool" where
  "sieve_binary_emit_dynamic_data sz sblock bytes =
     (case sieve_binary_emit_integer sz sblock (length bytes mod 2 ^ (8 * sz)) of
        (sblock', address, over) \<Rightarrow> (emit_data_raw sblock' bytes, address, over))"

definition sieve_binary_emit_string ::
  "nat \<Rightarrow> byte list \<Rightarrow> byte list \<Rightarrow> byte list \<times> sieve_size_t \<times> bool" where
  "sieve_binary_emit_string sz sblock str =
     (case sieve_binary_emit_dynamic_data sz sblock str of
        (sblock', address, over) \<Rightarrow> (emit_data_raw sblock' [0], address, over))"

section \<open>Code retrieval\<close>

text \<open>
  \<open>ADDR_CODE_READ\<close> yields the pointer \<open>_code\<close> and the length \<open>_code_size\<close>.  The bytes of
  the block are \<open>code\<close>; \<open>past i\<close> is what the memory holds at \<open>_code[_code_size + i]\<close>,
  behind the block.  A load at an address that is not below \<open>_code_size\<close> is a load outside
  the block: it yields the byte that lies there, and every reader reports in \<open>stray\<close>
  whether it made one.
\<close>

record code_mem =
  code :: "byte list"
  past :: "nat \<Rightarrow> byte"

definition in_code :: "code_mem \<Rightarrow> sieve_size_t \<Rightarrow> bool" where
  "in_code m address = (address < length (code m))"

definition ADDR_DATA_AT :: "code_mem \<Rightarrow> sieve_size_t \<Rightarrow> byte" where
  "ADDR_DATA_AT m address =
     (if address < length (code m) then code m ! address
      else past m (address - length (code m)))"

definition ADDR_CODE_AT :: "code_mem \<Rightarrow> sieve_size_t \<Rightarrow> int" where
  "ADDR_CODE_AT m address = sint (ADDR_DATA_AT m address)"

definition ADDR_BYTES_LEFT :: "code_mem \<Rightarrow> sieve_size_t \<Rightarrow> nat" where
  "ADDR_BYTES_LEFT m address = size_t_wrap (int (length (code m)) - int address)"

text \<open>
  What a reader leaves behind: its return value \<open>ok\<close>, the cursor \<open>addr\<close>, the value of its
  out parameter (\<open>None\<close> when nothing was stored through it), and \<open>stray\<close>.  Out pointers
  are taken to be non-null.
\<close>

datatype 'a outcome = Outcome (ok: bool) (addr: sieve_size_t) (out: "'a option") (stray: bool)

definition sieve_binary_read_byte :: "code_mem \<Rightarrow> sieve_size_t \<Rightarrow> (32 word) outcome" where
  "sieve_binary_read_byte m address =
     (if ADDR_BYTES_LEFT m address \<ge> 1
      then Outcome True (address + 1) (Some (ucast (ADDR_DATA_AT m address))) (\<not> in_code m address)
      else Outcome False address (Some 0) False)"

definition sieve_binary_read_code :: "code_mem \<Rightarrow> sieve_size_t \<Rightarrow> (32 word) outcome" where
  "sieve_binary_read_code m address =
     (if ADDR_BYTES_LEFT m address \<ge> 1
      then Outcome True (address + 1) (Some (scast (ADDR_DATA_AT m address))) (\<not> in_code m address)
      else Outcome False address (Some 0) False)"

fun read_offset_loop ::
  "code_mem \<Rightarrow> nat \<Rightarrow> 32 word \<times> sieve_size_t \<times> bool \<Rightarrow> 32 word \<times> sieve_size_t \<times> bool" where
  "read_offset_loop m 0 s = s"
| "read_offset_loop m (Suc n) (offs, address, st) =
     read_offset_loop m n
       (push_bit 8 offs + ucast (ADDR_DATA_AT m address), address + 1, st \<or> \<not> in_code m address)"

definition sieve_binary_read_offset :: "code_mem \<Rightarrow> sieve_size_t \<Rightarrow> (32 word) outcome" where
  "sieve_binary_read_offset m address =
     (if ADDR_BYTES_LEFT m address \<ge> 4
      then (case read_offset_loop m 4 (0, address, False) of
              (offs, address', st) \<Rightarrow> Outcome True address' (Some offs) st)
      else Outcome False address None False)"

text \<open>
  The loop of \<open>sieve_binary_read_integer\<close>.  Its test loads the byte at the cursor before
  the body looks at the bytes left; \<open>bits\<close> starts at \<open>sizeof(sieve_number_t) * 8\<close> and
  loses 7 with every continuation byte taken.
\<close>

function read_integer_loop ::
  "code_mem \<Rightarrow> nat \<Rightarrow> sieve_size_t \<Rightarrow> sieve_number_t \<Rightarrow> int \<Rightarrow> bool \<Rightarrow> sieve_number_t outcome" where
  "read_integer_loop m sz address int_r bits st =
     (if (ADDR_DATA_AT m address AND 0x80) > 0 then
        (if ADDR_BYTES_LEFT m address > 0 \<and> bits > 0 then
           read_integer_loop m sz (address + 1)
             (push_bit 7 (int_r OR unat (ADDR_DATA_AT m address AND 0x7F)) mod 2 ^ (8 * sz))
             (bits - 7) (st \<or> \<not> in_code m address)
         else Outcome False address (Some int_r) (st \<or> \<not> in_code m address))
      else Outcome True (address + 1)
             (Some (int_r OR unat (ADDR_DATA_AT m address AND 0x7F)))
             (st \<or> \<not> in_code m address))"
  by pat_completeness auto
termination
  by (relation "measure (\<lambda>(m, sz, address, int_r, bits, st). nat bits)") auto

definition sieve_binary_read_integer ::
  "nat \<Rightarrow> code_mem \<Rightarrow> sieve_size_t \<Rightarrow> sieve_number_t outcome" where
  "sieve_binary_read_integer sz m address =
     (if ADDR_BYTES_LEFT m address = 0 then Outcome False address (Some 0) False
      else read_integer_loop m sz address 0 (int (sz * 8)) False)"

text \<open>
  Modelled from the spec: \<open>sieve_binary_read_unsigned\<close> is not among the sources.  The spec
  has \<open>read_string\<close> "first \<open>read_integer\<close> for length"; the length is received in the
  \<open>unsigned int strlen\<close> of \<open>sieve_binary_read_string\<close>, so the number read is cut to 32
  bits, and nothing is stored when the read fails.
\<close>

definition sieve_binary_read_unsigned ::
  "nat \<Rightarrow> code_mem \<Rightarrow> sieve_size_t \<Rightarrow> (32 word) outcome" where
  "sieve_binary_read_unsigned sz m address =
     (case sieve_binary_read_integer sz m address of
        Outcome r a v st \<Rightarrow>
          if r then Outcome True a (map_option of_nat v) st else Outcome False a None st)"

text \<open>
  \<open>sieve_binary_read_string\<close>.  The string handed out is a view of \<open>strlen\<close> bytes at the
  cursor (\<open>stray\<close> is set as well when that view reaches outside the block); the terminator
  is loaded at the address behind it.
\<close>

definition sieve_binary_read_string ::
  "nat \<Rightarrow> code_mem \<Rightarrow> sieve_size_t \<Rightarrow> (byte list) outcome" where
  "sieve_binary_read_string sz m address =
     (case sieve_binary_read_unsigned sz m address of
        Outcome r a v st \<Rightarrow>
          (let strlen = (case v of None \<Rightarrow> 0 | Some n \<Rightarrow> unat n) in
           if \<not> r then Outcome False a None st
           else if strlen > ADDR_BYTES_LEFT m a then Outcome False a None st
           else
             (let str = map (ADDR_DATA_AT m) [a ..< a + strlen];
                  st1 = (st \<or> (0 < strlen \<and> length (code m) < a + strlen));
                  a1 = a + strlen;
                  st2 = (st1 \<or> \<not> in_code m a1)
              in if ADDR_CODE_AT m a1 \<noteq> 0 then Outcome False a1 (Some str) st2
                 else Outcome True (a1 + 1) (Some str) st2)))"

text \<open>
  \<open>sieve_binary_read_extension\<close>.  \<open>offset_r\<close> is an in/out parameter: the result holds
  its value afterwards.  \<open>ext_r\<close> is \<open>None\<close> when nothing was stored through it and
  \<open>Some None\<close> when the null pointer was.  The extension table of the binary
  (\<open>sieve_binary_extension_get_by_index\<close>) is the parameter \<open>by_index\<close>.
\<close>

datatype 'e ext_outcome =
  ExtOutcome (ext_ok: bool) (ext_addr: sieve_size_t) (offset_r: "32 word")
    (ext_r: "'e option option") (ext_stray: bool)

definition sieve_binary_read_extension ::
  "(nat \<Rightarrow> 'e option) \<Rightarrow> code_mem \<Rightarrow> sieve_size_t \<Rightarrow> 32 word \<Rightarrow> 'e ext_outcome" where
  "sieve_binary_read_extension by_index m address offset_r0 =
     (let offset = offset_r0 in
      if ADDR_BYTES_LEFT m address \<le> 0 then ExtOutcome False address offset_r0 None False
      else
        (let code = (ucast (ADDR_DATA_AT m address) :: 32 word);
             st = (\<not> in_code m address);
             a = address + 1
         in if code \<ge> offset then
              (case by_index (unat (code - offset)) of
                 None \<Rightarrow> ExtOutcome False a code None st
               | Some e \<Rightarrow> ExtOutcome True a code (Some (Some e)) st)
            else ExtOutcome True a code (Some None) st))"

text \<open>\<open>sieve_binary_read_extension_object\<close>: the table \<open>objs\<close> is the list of its
  \<open>objs->count\<close> objects; the result is the object (or null), the cursor and \<open>stray\<close>.\<close>

definition sieve_binary_read_extension_object ::
  "'o list \<Rightarrow> code_mem \<Rightarrow> sieve_size_t \<Rightarrow> 'o option \<times> sieve_size_t \<times> bool" where
  "sieve_binary_read_extension_object objs m address =
     (if length objs = 0 then (None, address, False)
      else if length objs = 1 then (Some (hd objs), address, False)
      else if ADDR_BYTES_LEFT m address \<le> 0 then (None, address, False)
      else
        (let code = unat (ADDR_DATA_AT m address);
             st = (\<not> in_code m address);
             a = address + 1
         in if code \<ge> length objs then (None, a, st) else (Some (objs ! code), a, st)))"

section \<open>The interpreter\<close>

text \<open>
  The interpreter's state.  \<open>sbin\<close> is the code of the binary it runs (committed, never
  written during a run); \<open>msgdata\<close> and \<open>result\<close> are the bindings of the runtime
  environment, \<open>None\<close> for the null pointer, and \<open>result\<close> holds the state of the result
  object while it is bound.  Memory pools, extension contexts and reference counts are left
  out.
\<close>

record ('r, 'm) sieve_interpreter =
  pc :: sieve_size_t
  stopped :: bool
  test_result :: bool
  sbin :: code_mem
  msgdata :: "'m option"
  result :: "'r option"

type_synonym ('r, 'm) hook =
  "('r, 'm) sieve_interpreter \<Rightarrow> bool \<times> ('r, 'm) sieve_interpreter"

text \<open>An opcode with its hooks; a hook receives the runtime environment and the program
  counter by reference, that is the interpreter.  Printing is left out.\<close>

record ('r, 'm) sieve_opcode =
  mnemonic :: "string option"
  dump :: "('r, 'm) hook option"
  execute :: "('r, 'm) hook option"

definition sieve_binary_get_code_size :: "code_mem \<Rightarrow> sieve_size_t" where
  "sieve_binary_get_code_size m = length (code m)"

definition sieve_interpreter_reset :: "('r, 'm) sieve_interpreter \<Rightarrow> ('r, 'm) sieve_interpreter" where
  "sieve_interpreter_reset interp =
     interp\<lparr>pc := 0, stopped := False, test_result := False, msgdata := None, result := None\<rparr>"

definition sieve_interpreter_stop :: "('r, 'm) sieve_interpreter \<Rightarrow> ('r, 'm) sieve_interpreter" where
  "sieve_interpreter_stop interp = interp\<lparr>stopped := True\<rparr>"

definition sieve_interpreter_program_counter :: "('r, 'm) sieve_interpreter \<Rightarrow> sieve_size_t" where
  "sieve_interpreter_program_counter interp = pc interp"

text \<open>The operand readers of the interpreter move its program counter.\<close>

definition sieve_interpreter_read_offset_operand ::
  "('r, 'm) sieve_interpreter \<Rightarrow> bool \<times> ('r, 'm) sieve_interpreter \<times> 32 word option" where
  "sieve_interpreter_read_offset_operand interp =
     (case sieve_binary_read_offset (sbin interp) (pc interp) of
        Outcome r a v st \<Rightarrow> (r, interp\<lparr>pc := a\<rparr>, v))"

text \<open>
  \<open>sieve_interpreter_program_jump\<close>: \<open>pc\<close> is read before the operand is decoded;
  \<open>pc + offset\<close> is a \<open>size_t\<close> sum with the \<open>int\<close> converted.  A successful read of the
  operand always stores the offset.
\<close>

definition sieve_interpreter_program_jump ::
  "('r, 'm) sieve_interpreter \<Rightarrow> bool \<Rightarrow> bool \<times> ('r, 'm) sieve_interpreter" where
  "sieve_interpreter_program_jump interp jump =
     (let pc0 = pc interp in
      case sieve_interpreter_read_offset_operand interp of
        (r, interp', v) \<Rightarrow>
          if \<not> r then (False, interp')
          else
            (case v of
               None \<Rightarrow> (False, interp')
             | Some offset \<Rightarrow>
                 if size_t_wrap (int pc0 + sint offset) \<le> sieve_binary_get_code_size (sbin interp')
                    \<and> size_t_wrap (int pc0 + sint offset) > 0
                 then (True, if jump then interp'\<lparr>pc := size_t_wrap (int pc0 + sint offset)\<rparr>
                             else interp')
                 else (False, interp')))"

definition sieve_interpreter_set_test_result ::
  "('r, 'm) sieve_interpreter \<Rightarrow> bool \<Rightarrow> ('r, 'm) sieve_interpreter" where
  "sieve_interpreter_set_test_result interp r = interp\<lparr>test_result := r\<rparr>"

definition sieve_interpreter_get_test_result :: "('r, 'm) sieve_interpreter \<Rightarrow> bool" where
  "sieve_interpreter_get_test_result interp = test_result interp"

text \<open>
  \<open>sieve_operation_read\<close> is not among the sources: it is the parameter \<open>opread\<close>, which
  takes the code and the cursor and yields the opcode (or null) and the cursor moved.
\<close>

type_synonym ('r, 'm) operation_read =
  "code_mem \<Rightarrow> sieve_size_t \<Rightarrow> ('r, 'm) sieve_opcode option \<times> sieve_size_t"

definition sieve_interpreter_execute_operation ::
  "('r, 'm) operation_read \<Rightarrow> ('r, 'm) hook" where
  "sieve_interpreter_execute_operation opread interp =
     (case opread (sbin interp) (pc interp) of
        (opcode, pc') \<Rightarrow>
          (case opcode of
             None \<Rightarrow> (False, interp\<lparr>pc := pc'\<rparr>)
           | Some opc \<Rightarrow>
               (case execute opc of
                  None \<Rightarrow> (False, interp\<lparr>pc := pc'\<rparr>)
                | Some hook \<Rightarrow> hook (interp\<lparr>pc := pc'\<rparr>))))"

text \<open>
  The loop of \<open>sieve_interpreter_run\<close>.  A program may loop for ever, so the loop takes
  fuel: \<open>None\<close> is "still running when the fuel ran out".  Otherwise the result says how
  the loop was left, \<open>False\<close> through \<open>return FALSE\<close> and \<open>True\<close> through its test, with
  the interpreter at that moment.
\<close>

fun run_loop ::
  "('r, 'm) operation_read \<Rightarrow> nat \<Rightarrow> ('r, 'm) sieve_interpreter \<Rightarrow>
   (bool \<times> ('r, 'm) sieve_interpreter) option" where
  "run_loop opread fuel interp =
     (if \<not> stopped interp \<and> pc interp < sieve_binary_get_code_size (sbin interp) then
        (case fuel of
           0 \<Rightarrow> None
         | Suc n \<Rightarrow>
             (case sieve_interpreter_execute_operation opread interp of
                (r, interp') \<Rightarrow> if \<not> r then Some (False, interp') else run_loop opread n interp'))
      else Some (True, interp))"

text \<open>\<open>sieve_interpreter_run\<close> yields its return value, the interpreter and the result
  object as the run leaves them.\<close>

definition sieve_interpreter_run ::
  "('r, 'm) operation_read \<Rightarrow> nat \<Rightarrow> ('r, 'm) sieve_interpreter \<Rightarrow> 'm \<Rightarrow> 'r \<Rightarrow>
   (bool \<times> ('r, 'm) sieve_interpreter \<times> 'r option) option" where
  "sieve_interpreter_run opread fuel interp md res =
     (case run_loop opread fuel
             ((sieve_interpreter_reset interp)\<lparr>msgdata := Some md, result := Some res\<rparr>) of
        None \<Rightarrow> None
      | Some (r, interp') \<Rightarrow>
          if r then Some (True, interp'\<lparr>result := None, msgdata := None\<rparr>, result interp')
          else Some (False, interp', result interp'))"

text \<open>
  Modelled from the spec: \<open>sieve_operation_read\<close> is not among the sources.  The spec has
  the loop "fetch one opcode tag via the Reader at \<open>pc\<close> (this advances \<open>pc\<close> past the tag)"
  and find no opcode for an "unknown/garbage tag, or a read failure".  The tag is read with
  \<open>sieve_binary_read_code\<close>; the table of the known opcodes is the parameter \<open>optable\<close>.
\<close>

definition sieve_operation_read ::
  "(32 word \<Rightarrow> ('r, 'm) sieve_opcode option) \<Rightarrow> ('r, 'm) operation_read" where
  "sieve_operation_read optable m address =
     (case sieve_binary_read_code m address of
        Outcome r a v st \<Rightarrow>
          if r then (case v of None \<Rightarrow> (None, a) | Some tag \<Rightarrow> (optable tag, a))
          else (None, a))"

section \<open>The keep operation\<close>

text \<open>
  \<open>cmd_keep_operation_execute\<close>.  Its three helpers are not among the sources and are
  parameters: \<open>get_source_location\<close> (the source line recorded for the operation),
  \<open>handle_optional_operands\<close> (its return value, the environment with the cursor moved, and
  the side effects list it leaves in \<open>slist\<close>, which starts out null, the empty list) and
  \<open>add_keep\<close> (\<open>sieve_result_add_keep\<close>: its return value and the environment with the
  result object as the call leaves it).  The runtime environment and the cursor are the
  interpreter, as for every hook.
\<close>

definition cmd_keep_operation_execute ::
  "(('r, 'm) sieve_interpreter \<Rightarrow> nat) \<Rightarrow>
   (('r, 'm) sieve_interpreter \<Rightarrow> int \<times> ('r, 'm) sieve_interpreter \<times> 'se list) \<Rightarrow>
   (('r, 'm) sieve_interpreter \<Rightarrow> 'se list \<Rightarrow> nat \<Rightarrow> int \<times> ('r, 'm) sieve_interpreter) \<Rightarrow>
   ('r, 'm) sieve_interpreter \<Rightarrow> int \<times> ('r, 'm) sieve_interpreter" where
  "cmd_keep_operation_execute get_source_location handle_optional_operands add_keep renv =
     (let source_line = get_source_location renv in
      case handle_optional_operands renv of
        (ret, renv1, slist) \<Rightarrow>
          if ret \<le> 0 then (ret, renv1)
          else (case add_keep renv1 slist source_line of
                  (ret2, renv2) \<Rightarrow> ((if ret2 \<ge> 0 then 1 else 0), renv2)))"

text \<open>
  Modelled from the spec: the interpreter among the sources calls a hook of three arguments
  and takes its result as a truth value, while \<open>cmd_keep_operation_execute\<close> returns an
  \<open>int\<close>; the spec has the loop "invoke the opcode's execute hook, passing the Interpreter
  and a mutable cursor".  An operation is plugged in as the hook that is \<open>TRUE\<close> where the
  \<open>int\<close> is not zero.
\<close>

definition hook_of_operation ::
  "(('r, 'm) sieve_interpreter \<Rightarrow> int \<times> ('r, 'm) sieve_interpreter) \<Rightarrow> ('r, 'm) hook" where
  "hook_of_operation operation interp = (case operation interp of (ret, interp') \<Rightarrow> (ret \<noteq> 0, interp'))"

definition keep_opcode ::
  "(('r, 'm) sieve_interpreter \<Rightarrow> nat) \<Rightarrow>
   (('r, 'm) sieve_interpreter \<Rightarrow> int \<times> ('r, 'm) sieve_interpreter \<times> 'se list) \<Rightarrow>
   (('r, 'm) sieve_interpreter \<Rightarrow> 'se list \<Rightarrow> nat \<Rightarrow> int \<times> ('r, 'm) sieve_interpreter) \<Rightarrow>
   ('r, 'm) sieve_opcode" where
  "keep_opcode get_source_location handle_optional_operands add_keep =
     \<lparr>mnemonic = Some ''KEEP'', dump = None,
      execute = Some (hook_of_operation
        (cmd_keep_operation_execute get_source_location handle_optional_operands add_keep))\<rparr>"

text \<open>
  Modelled from the spec: a result collaborator "stub" whose state is the list of the keep
  actions it was asked to add, each with its side effects and source line; it accepts every
  action.
\<close>

definition stub_add_keep ::
  "(('se list \<times> nat) list, 'm) sieve_interpreter \<Rightarrow> 'se list \<Rightarrow> nat \<Rightarrow>
   int \<times> (('se list \<times> nat) list, 'm) sieve_interpreter" where
  "stub_add_keep renv slist source_line =
     (1, renv\<lparr>result := map_option (\<lambda>log. log @ [(slist, source_line)]) (result renv)\<rparr>)"

text \<open>
  Modelled from the spec: no operation with a string operand is among the sources.  The spec
  has every execute hook "decoding its own operands (further advancing \<open>pc\<close>)"; this hook
  decodes one string operand with \<open>sieve_binary_read_string\<close> and does nothing else.
\<close>

definition string_operand_hook :: "nat \<Rightarrow> ('r, 'm) hook" where
  "string_operand_hook sz interp =
     (case sieve_binary_read_string sz (sbin interp) (pc interp) of
        Outcome r a v st \<Rightarrow> (r, interp\<lparr>pc := a\<rparr>))"

section \<open>Auxiliary notions\<close>

text \<open>The base-128 digits of a number, most significant first (none for 0), and the
  encoding they give: the continuation bit on every digit of \<open>v div 128\<close>, then the last
  digit without it.\<close>

function groups7 :: "nat \<Rightarrow> byte list" where
  "groups7 x = (if x = 0 then [] else groups7 (x div 128) @ [of_nat (x mod 128)])"
  by pat_completeness auto
termination
  by (relation "measure id") auto

definition vlq :: "nat \<Rightarrow> byte list" where
  "vlq v = map (\<lambda>b. b OR 0x80) (groups7 (v div 128)) @ [of_nat (v mod 128)]"

text \<open>One turn of the reader's loop on the number read so far.\<close>

definition take_group :: "nat \<Rightarrow> nat \<Rightarrow> byte \<Rightarrow> nat" where
  "take_group sz acc c = push_bit 7 (acc OR unat (c AND 0x7F)) mod 2 ^ (8 * sz)"

text \<open>The interpreter after \<open>k\<close> turns of the run loop, each entered through the loop's
  test and each with an operation that returned \<open>TRUE\<close>; \<open>None\<close> when there are no \<open>k\<close>
  such turns.\<close>

fun run_steps ::
  "('r, 'm) operation_read \<Rightarrow> nat \<Rightarrow> ('r, 'm) sieve_interpreter \<Rightarrow>
   ('r, 'm) sieve_interpreter option" where
  "run_steps opread 0 interp = Some interp"
| "run_steps opread (Suc k) interp =
     (if \<not> stopped interp \<and> pc interp < sieve_binary_get_code_size (sbin interp) then
        (case sieve_interpreter_execute_operation opread interp of
           (r, interp') \<Rightarrow> if r then run_steps opread k interp' else None)
      else None)"

declare emit_integer_loop.simps [simp del] read_integer_loop.simps [simp del]
  groups7.simps [simp del] run_loop.simps [simp del]

section \<open>Facts about the reader\<close>

lemma bytes_left_in:
  "address \<le> length (code m) \<Longrightarrow> length (code m) < 2 ^ 64 \<Longrightarrow>
   ADDR_BYTES_LEFT m address = length (code m) - address"
  by (simp add: ADDR_BYTES_LEFT_def size_t_wrap_def nat_diff_distrib' flip: of_nat_diff)

text \<open>
  C10.  At a cursor with at least one byte left, a byte below the base offset makes
  \<open>sieve_binary_read_extension\<close> succeed whatever the extension table holds: the cursor
  moves by one, the byte is stored through \<open>offset_r\<close>, the null pointer through \<open>ext_r\<close>,
  and no byte outside the block is loaded.  The read fails exactly when the byte is at or
  above the base offset and the table has no extension at that index.
\<close>

theorem read_extension_below_base:
  assumes "address < length (code m)" and "length (code m) < 2 ^ 64"
  shows "(ucast (code m ! address) < offset \<longrightarrow>
            sieve_binary_read_extension by_index m address offset =
              ExtOutcome True (address + 1) (ucast (code m ! address)) (Some None) False)
       \<and> (\<not> ext_ok (sieve_binary_read_extension by_index m address offset) \<longleftrightarrow>
            offset \<le> ucast (code m ! address) \<and>
            by_index (unat (ucast (code m ! address) - offset)) = None)"
  using assms
  by (auto simp: sieve_binary_read_extension_def bytes_left_in ADDR_DATA_AT_def in_code_def Let_def
      split: option.splits)

theorem read_extension_below_base_witness:
  "sieve_binary_read_extension (\<lambda>i. None :: unit option) \<lparr>code = [7, 3], past = (\<lambda>i. 0)\<rparr> 1 5 =
     ExtOutcome True 2 3 (Some None) False
   \<and> \<not> ext_ok (sieve_binary_read_extension (\<lambda>i. None :: unit option)
                  \<lparr>code = [7, 3], past = (\<lambda>i. 0)\<rparr> 0 5)"
  using read_extension_below_base [of 1 "\<lparr>code = [7, 3], past = (\<lambda>i. 0)\<rparr>" 5 "\<lambda>i. None :: unit option"]
    read_extension_below_base [of 0 "\<lparr>code = [7, 3], past = (\<lambda>i. 0)\<rparr>" 5 "\<lambda>i. None :: unit option"]
  by simp

section \<open>Offsets\<close>

text \<open>The four bytes of an offset, put together the way \<open>sieve_binary_read_offset\<close> does,
  give the offset back.\<close>

lemma be_or: "push_bit 8 (x :: 32 word) + ucast (b :: byte) = push_bit 8 x OR ucast b"
  by (rule disjunctive_add) (auto simp: bit_simps dest: bit_imp_le_length)

lemma be32:
  "push_bit 8 (push_bit 8 (push_bit 8 (push_bit 8 0 + ucast (offset_byte w 3)) + ucast (offset_byte w 2))
      + ucast (offset_byte w (Suc 0))) + ucast (offset_byte w 0) = w"
  unfolding be_or
proof (rule bit_word_eqI)
  fix n assume n: "n < LENGTH(32)"
  consider "n < 8" | "8 \<le> n" "n < 16" | "16 \<le> n" "n < 24" | "24 \<le> n" "n < 32"
    using n by fastforce
  then show "bit (push_bit 8 (push_bit 8 (push_bit 8 (push_bit 8 0 OR ucast (offset_byte w 3)) OR ucast (offset_byte w 2))
      OR ucast (offset_byte w (Suc 0))) OR (ucast (offset_byte w 0) :: 32 word)) n = bit w n"
    by cases (auto simp: bit_simps offset_byte_def)
qed

lemma buffer_write_in: "pos < length buf \<Longrightarrow> buffer_write buf pos [x] = buf[pos := x]"
  by (simp add: buffer_write_def upd_conv_take_nth_drop)

lemma resolve_offset_eq:
  assumes "A + 4 \<le> length b"
  shows "sieve_binary_resolve_offset b A =
     (let w = (of_nat (size_t_wrap (int (length b) - int A)) :: 32 word) in
       b[A := offset_byte w 3, A + 1 := offset_byte w 2, A + 2 := offset_byte w 1, A + 3 := offset_byte w 0])"
  using assms
  by (simp add: sieve_binary_resolve_offset_def update_data_raw_def buffer_write_in Let_def)

lemma read_offset_in:
  assumes "A + 4 \<le> length (code m)" "length (code m) < 2 ^ 64"
  shows "sieve_binary_read_offset m A = Outcome True (A + 4)
     (Some (push_bit 8 (push_bit 8 (push_bit 8 (push_bit 8 0 + ucast (code m ! A)) + ucast (code m ! (A + 1)))
      + ucast (code m ! (A + 2))) + ucast (code m ! (A + 3)))) False"
proof -
  have four: "(4::nat) = Suc (Suc (Suc (Suc 0)))" by simp
  have "read_offset_loop m 4 (0, A, False) =
     (push_bit 8 (push_bit 8 (push_bit 8 (push_bit 8 0 + ucast (code m ! A)) + ucast (code m ! (A + 1)))
      + ucast (code m ! (A + 2))) + ucast (code m ! (A + 3)), A + 4, False)"
  proof -
    have e: "A + 3 = Suc (Suc (Suc A))" "A + 2 = Suc (Suc A)" by simp_all
    show ?thesis
      unfolding four e using assms by (simp add: ADDR_DATA_AT_def in_code_def)
  qed
  then show ?thesis
    using assms by (simp add: sieve_binary_read_offset_def bytes_left_in)
qed

lemma offset_byte_drop: "i < 4 \<Longrightarrow> offset_byte w i = ucast (drop_bit (i * 8) w)"
  unfolding offset_byte_def
  by (rule bit_word_eqI) (auto simp: bit_simps)

lemma offset_byte_nat: "i < 4 \<Longrightarrow> unat (offset_byte w i) = unat w div 2 ^ (i * 8) mod 256"
proof -
  assume "i < 4"
  then have "unat (offset_byte w i) = take_bit 8 (drop_bit (i * 8) (unat w))"
    by (simp add: offset_byte_drop unsigned_ucast_eq unat_drop_bit_eq)
  then show ?thesis
    by (simp add: take_bit_eq_mod drop_bit_eq_div)
qed

text \<open>
  C4.  \<open>sieve_binary_emit_offset\<close> returns the address \<open>A\<close> of its four bytes; after \<open>N\<close>
  further bytes were emitted, \<open>sieve_binary_resolve_offset\<close> at \<open>A\<close> leaves the length of the
  buffer as it is, stores \<open>current_size - A = N + 4\<close> in the four bytes at \<open>A\<close>, most
  significant byte first, and changes no other byte; \<open>sieve_binary_read_offset\<close> at \<open>A\<close>
  then succeeds, moves the cursor by four, loads nothing outside the block and yields
  \<open>N + 4\<close>.  \<open>N + 4\<close> is taken to fit an \<open>int\<close> and the buffer an address space of 64
  bits.
\<close>

theorem resolve_offset_patches:
  assumes eo: "sieve_binary_emit_offset sblock placeholder = (b1, A)"
      and ed: "sieve_binary_emit_data b1 extra = (b2, A2)"
      and fits: "length extra + 4 < 2 ^ 31"
      and mem: "length b2 < 2 ^ 64"
  shows "length (sieve_binary_resolve_offset b2 A) = length b2
       \<and> length b2 - A = length extra + 4
       \<and> map unat (take 4 (drop A (sieve_binary_resolve_offset b2 A))) =
           [(length b2 - A) div 2 ^ 24 mod 256, (length b2 - A) div 2 ^ 16 mod 256,
            (length b2 - A) div 2 ^ 8 mod 256, (length b2 - A) mod 256]
       \<and> take A (sieve_binary_resolve_offset b2 A) = take A b2
       \<and> drop (A + 4) (sieve_binary_resolve_offset b2 A) = drop (A + 4) b2
       \<and> sieve_binary_read_offset \<lparr>code = sieve_binary_resolve_offset b2 A, past = p\<rparr> A =
           Outcome True (A + 4) (Some (of_nat (length extra + 4))) False
       \<and> sint (of_nat (length extra + 4) :: 32 word) = int (length extra) + 4"
proof -
  define w :: "32 word" where "w = of_nat (length extra + 4)"
  have A: "A = length sblock" and b1: "b1 = sblock @ map (offset_byte placeholder) [3, 2, 1, 0]"
    using eo by (auto simp: sieve_binary_emit_offset_def emit_data_raw_def buffer_append_def)
  have b2: "b2 = b1 @ extra"
    using ed by (auto simp: sieve_binary_emit_data_def emit_data_raw_def buffer_append_def)
  have len: "length b2 = A + 4 + length extra" by (simp add: b2 b1 A)
  have wrap: "size_t_wrap (int (length b2) - int A) = length extra + 4"
    using fits by (simp add: len size_t_wrap_def)
  have le: "A + 4 \<le> length b2" by (simp add: len)
  have "sieve_binary_resolve_offset b2 A =
      b2[A := offset_byte w 3, A + 1 := offset_byte w 2, A + 2 := offset_byte w 1, A + 3 := offset_byte w 0]"
    using resolve_offset_eq [OF le] unfolding wrap Let_def w_def .
  then have r: "sieve_binary_resolve_offset b2 A =
      sblock @ [offset_byte w 3, offset_byte w 2, offset_byte w 1, offset_byte w 0] @ extra"
    by (simp add: b2 b1 A list_update_append)
  have uw: "unat w = length extra + 4"
    unfolding w_def unat_of_nat using fits by simp
  have bytes: "map unat [offset_byte w 3, offset_byte w 2, offset_byte w 1, offset_byte w 0] =
      [(length b2 - A) div 2 ^ 24 mod 256, (length b2 - A) div 2 ^ 16 mod 256,
       (length b2 - A) div 2 ^ 8 mod 256, (length b2 - A) mod 256]"
    by (simp add: offset_byte_nat uw len add.commute)
  have rd: "sieve_binary_read_offset \<lparr>code = sieve_binary_resolve_offset b2 A, past = p\<rparr> A =
           Outcome True (A + 4) (Some w) False"
  proof -
    let ?m = "\<lparr>code = sblock @ [offset_byte w 3, offset_byte w 2, offset_byte w 1, offset_byte w 0] @ extra,
               past = p\<rparr>"
    have 1: "A + 4 \<le> length (code ?m)" by (simp add: A)
    have 2: "length (code ?m) < 2 ^ 64" using mem by (simp add: len A)
    have 3: "code ?m ! A = offset_byte w 3" "code ?m ! (A + 1) = offset_byte w 2"
      "code ?m ! (A + 2) = offset_byte w (Suc 0)" "code ?m ! (A + 3) = offset_byte w 0"
      by (simp_all add: A nth_append)
    show ?thesis
      unfolding r read_offset_in [OF 1 2] 3 be32 ..
  qed
  have s: "sint w = int (length extra) + 4"
    unfolding w_def signed_of_nat using fits by (simp add: signed_take_bit_int_eq_self)
  have c1: "length (sieve_binary_resolve_offset b2 A) = length b2"
    unfolding r by (simp add: len A)
  have c2: "length b2 - A = length extra + 4"
    by (simp add: len)
  have c3: "map unat (take 4 (drop A (sieve_binary_resolve_offset b2 A))) =
           [(length b2 - A) div 2 ^ 24 mod 256, (length b2 - A) div 2 ^ 16 mod 256,
            (length b2 - A) div 2 ^ 8 mod 256, (length b2 - A) mod 256]"
    unfolding r bytes [symmetric] by (simp add: A)
  have c4: "take A (sieve_binary_resolve_offset b2 A) = take A b2"
    unfolding r by (simp add: A b2 b1)
  have c5: "drop (A + 4) (sieve_binary_resolve_offset b2 A) = drop (A + 4) b2"
    unfolding r by (simp add: A b2 b1)
  show ?thesis
    using c1 c2 c3 c4 c5 rd s unfolding w_def by (intro conjI)
qed

theorem resolve_offset_patches_witness:
  "sieve_binary_emit_offset [9] 0 = ([9, 0, 0, 0, 0], 1)
   \<and> sieve_binary_emit_data [9, 0, 0, 0, 0] [7, 7, 7] = ([9, 0, 0, 0, 0, 7, 7, 7], 5)
   \<and> sieve_binary_resolve_offset [9, 0, 0, 0, 0, 7, 7, 7] 1 = [9, 0, 0, 0, 7, 7, 7, 7]
   \<and> sieve_binary_read_offset \<lparr>code = [9, 0, 0, 0, 7, 7, 7, 7], past = (\<lambda>i. 0)\<rparr> 1 =
       Outcome True 5 (Some 7) False"
proof -
  have eo: "sieve_binary_emit_offset [9] 0 = ([9, 0, 0, 0, 0], 1)"
    by (simp add: sieve_binary_emit_offset_def emit_data_raw_def buffer_append_def offset_byte_def)
  have ed: "sieve_binary_emit_data [9, 0, 0, 0, 0] [7, 7, 7] = ([9, 0, 0, 0, 0, 7, 7, 7], 5)"
    by (simp add: sieve_binary_emit_data_def emit_data_raw_def buffer_append_def)
  have r: "sieve_binary_resolve_offset [9, 0, 0, 0, 0, 7, 7, 7] 1 = [9, 0, 0, 0, 7, 7, 7, 7]"
    by (simp add: sieve_binary_resolve_offset_def update_data_raw_def buffer_write_def
        size_t_wrap_def offset_byte_def)
  from resolve_offset_patches [OF eo ed, of "\<lambda>i. 0"] show ?thesis
    using eo ed r by simp
qed

section \<open>The jump primitive\<close>

lemma read_offset_moves_four:
  "sieve_binary_read_offset m address = Outcome True a v st \<Longrightarrow> a = address + 4"
proof -
  have four: "(4::nat) = Suc (Suc (Suc (Suc 0)))" by simp
  have "fst (snd (read_offset_loop m 4 (offs, address, st0))) = address + 4" for offs st0
    unfolding four by simp
  from this [of 0 False]
  show "sieve_binary_read_offset m address = Outcome True a v st \<Longrightarrow> a = address + 4"
    by (auto simp: sieve_binary_read_offset_def split: if_splits prod.splits)
qed

lemma size_t_wrap_sum:
  assumes "p < 2 ^ 63" "- (2 ^ 31) \<le> d" "d < 2 ^ 31" "n < 2 ^ 63"
  shows "(size_t_wrap (int p + d) \<le> n \<and> size_t_wrap (int p + d) > 0) =
           (0 < int p + d \<and> int p + d \<le> int n)"
    and "0 < int p + d \<Longrightarrow> size_t_wrap (int p + d) = nat (int p + d)"
proof -
  show "0 < int p + d \<Longrightarrow> size_t_wrap (int p + d) = nat (int p + d)"
    using assms by (simp add: size_t_wrap_def)
  show "(size_t_wrap (int p + d) \<le> n \<and> size_t_wrap (int p + d) > 0) =
          (0 < int p + d \<and> int p + d \<le> int n)"
  proof (cases "0 \<le> int p + d")
    case True
    then have "(int p + d) mod 2 ^ 64 = int p + d" using assms by simp
    then show ?thesis using True by (auto simp: size_t_wrap_def)
  next
    case False
    have "(int p + d) mod 2 ^ 64 = (int p + d + 2 ^ 64) mod 2 ^ 64"
      by simp
    also have "\<dots> = int p + d + 2 ^ 64"
      using False assms by (intro mod_pos_pos_trivial) auto
    finally have "(int p + d) mod 2 ^ 64 = int p + d + 2 ^ 64" .
    then show ?thesis using False assms by (auto simp: size_t_wrap_def)
  qed
qed

lemma program_jump_short_operand:
  "\<not> ok (sieve_binary_read_offset (sbin interp) (pc interp)) \<Longrightarrow>
   sieve_interpreter_program_jump interp jump = (False, interp)"
  by (auto simp: sieve_interpreter_program_jump_def sieve_interpreter_read_offset_operand_def
      sieve_binary_read_offset_def split: if_splits prod.splits)

text \<open>
  C3, as the code has it.  \<open>sieve_interpreter_program_jump\<close> decodes one offset operand of
  four bytes, and the candidate is the program counter from \<^emph>\<open>before\<close> the operand was
  decoded (the address of the operand) plus the offset.  The jump succeeds if and only if
  \<open>0 < candidate \<le> code_size\<close>.  On success the program counter becomes the candidate
  when the jump is taken and stays behind the operand when it is only tested; on failure
  \<open>FALSE\<close> is returned and the program counter stays behind the operand: the candidate is
  neither clamped nor wrapped nor stored.  The program counter is taken to lie within the
  code, and the code to be shorter than \<open>2 ^ 63\<close> bytes.
\<close>

theorem program_jump_from_operand_address:
  assumes rd: "sieve_binary_read_offset (sbin interp) (pc interp) = Outcome True a (Some offset) st"
      and inv: "pc interp \<le> length (code (sbin interp))"
      and mem: "length (code (sbin interp)) < 2 ^ 63"
  shows "a = pc interp + 4
       \<and> sieve_interpreter_program_jump interp jump =
           (if 0 < int (pc interp) + sint offset \<and>
               int (pc interp) + sint offset \<le> int (sieve_binary_get_code_size (sbin interp))
            then (True, interp\<lparr>pc := (if jump then nat (int (pc interp) + sint offset) else a)\<rparr>)
            else (False, interp\<lparr>pc := a\<rparr>))"
proof -
  have b: "- (2 ^ 31) \<le> sint offset" "sint offset < 2 ^ 31"
    using sint_ge [of offset] sint_lt [of offset] by simp_all
  have p: "pc interp < 2 ^ 63" using inv mem by simp
  note w = size_t_wrap_sum [OF p b mem]
  have "sieve_interpreter_program_jump interp jump =
           (if 0 < int (pc interp) + sint offset \<and>
               int (pc interp) + sint offset \<le> int (sieve_binary_get_code_size (sbin interp))
            then (True, interp\<lparr>pc := (if jump then nat (int (pc interp) + sint offset) else a)\<rparr>)
            else (False, interp\<lparr>pc := a\<rparr>))"
    using w by (auto simp: sieve_interpreter_program_jump_def sieve_interpreter_read_offset_operand_def
        rd sieve_binary_get_code_size_def Let_def)
  then show ?thesis
    using read_offset_moves_four [OF rd] by simp
qed

lemma read_offset_eval:
  "sieve_binary_read_offset \<lparr>code = [b0, b1, b2, b3, b4], past = p\<rparr> 0 =
     Outcome True 4 (Some (push_bit 8 (push_bit 8 (push_bit 8 (push_bit 8 0 + ucast b0) + ucast b1)
        + ucast b2) + ucast b3)) False"
proof -
  have four: "(4::nat) = Suc (Suc (Suc (Suc 0)))" by simp
  have "read_offset_loop \<lparr>code = [b0, b1, b2, b3, b4], past = p\<rparr> 4 (0, 0, False) =
     (push_bit 8 (push_bit 8 (push_bit 8 (push_bit 8 0 + ucast b0) + ucast b1)
        + ucast b2) + ucast b3, 4, False)"
    unfolding four by (simp add: ADDR_DATA_AT_def in_code_def)
  then show ?thesis
    by (simp add: sieve_binary_read_offset_def ADDR_BYTES_LEFT_def size_t_wrap_def)
qed

theorem program_jump_from_operand_address_witness:
  "sieve_interpreter_program_jump
     \<lparr>pc = 0, stopped = False, test_result = False,
      sbin = \<lparr>code = [0, 0, 0, 6, 0], past = (\<lambda>i. 0)\<rparr>,
      msgdata = (None :: unit option), result = (None :: unit option)\<rparr> True =
   (False, \<lparr>pc = 4, stopped = False, test_result = False,
      sbin = \<lparr>code = [0, 0, 0, 6, 0], past = (\<lambda>i. 0)\<rparr>,
      msgdata = None, result = None\<rparr>)"
  using program_jump_from_operand_address [of
     "\<lparr>pc = 0, stopped = False, test_result = False,
      sbin = \<lparr>code = [0, 0, 0, 6, 0], past = (\<lambda>i. 0)\<rparr>,
      msgdata = (None :: unit option), result = (None :: unit option)\<rparr>" 4 6 False True]
  by (simp add: read_offset_eval sieve_binary_get_code_size_def)

text \<open>The claim as the spec has it takes the candidate from the program counter behind the
  operand.  On the code \<open>00 00 00 05 00\<close> with the program counter at 0 the operand is 5 and
  ends at 4; \<open>4 + 5\<close> lies outside the code of 5 bytes, yet the jump succeeds, to \<open>0 + 5\<close>.\<close>

theorem program_jump_after_operand_counterexample:
  "sieve_interpreter_read_offset_operand
     \<lparr>pc = 0, stopped = False, test_result = False,
      sbin = \<lparr>code = [0, 0, 0, 5, 0], past = (\<lambda>i. 0)\<rparr>,
      msgdata = (None :: unit option), result = (None :: unit option)\<rparr> =
   (True, \<lparr>pc = 4, stopped = False, test_result = False,
      sbin = \<lparr>code = [0, 0, 0, 5, 0], past = (\<lambda>i. 0)\<rparr>,
      msgdata = None, result = None\<rparr>, Some 5)
   \<and> \<not> (4 + sint (5 :: 32 word) \<le> int (sieve_binary_get_code_size \<lparr>code = [0, 0, 0, 5, 0], past = (\<lambda>i. 0)\<rparr>))
   \<and> sieve_interpreter_program_jump
     \<lparr>pc = 0, stopped = False, test_result = False,
      sbin = \<lparr>code = [0, 0, 0, 5, 0], past = (\<lambda>i. 0)\<rparr>,
      msgdata = (None :: unit option), result = (None :: unit option)\<rparr> True =
   (True, \<lparr>pc = 5, stopped = False, test_result = False,
      sbin = \<lparr>code = [0, 0, 0, 5, 0], past = (\<lambda>i. 0)\<rparr>,
      msgdata = None, result = None\<rparr>)"
  by (simp add: sieve_interpreter_program_jump_def sieve_interpreter_read_offset_operand_def
      read_offset_eval sieve_binary_get_code_size_def size_t_wrap_def)

section \<open>Integers and strings\<close>

lemma and_7f_nat: "(x::nat) AND 0x7F = x mod 128"
proof -
  have "x AND mask 7 = take_bit 7 x" by (simp only: take_bit_eq_mask)
  then show ?thesis by (simp add: mask_eq_exp_minus_1 take_bit_eq_mod)
qed

lemma or_low7_nat: "r < 128 \<Longrightarrow> (k * 128) OR r = k * 128 + (r::nat)"
proof -
  assume r: "r < 128"
  have "k * 128 + r = push_bit 7 k + take_bit 7 r"
    using r by (simp add: push_bit_eq_mult take_bit_eq_mod)
  also have "\<dots> = push_bit 7 k OR take_bit 7 r"
    by (rule disjunctive_add) (auto simp: bit_simps)
  also have "\<dots> = (k * 128) OR r"
    using r by (simp add: push_bit_eq_mult take_bit_eq_mod)
  finally show ?thesis by simp
qed

lemma bit_128_nat: "bit (128::nat) n = (n = 7)"
proof -
  have "bit ((2::nat) ^ 7) n = (n = 7)" by (simp only: bit_exp_iff) simp
  then show ?thesis by simp
qed

lemma bit_128_int: "bit (128::int) n = (n = 7)"
proof -
  have "bit ((2::int) ^ 7) n = (n = 7)" by (simp only: bit_exp_iff) simp
  then show ?thesis by simp
qed

lemma byte_low7: "d < 128 \<Longrightarrow> unat ((of_nat d :: byte) AND 0x7F) = d"
proof -
  assume d: "d < 128"
  have "unat ((of_nat d :: byte) AND 0x7F) = unat (of_nat d :: byte) AND unat (0x7F :: byte)"
    by (simp only: unsigned_and_eq)
  also have "\<dots> = d AND 0x7F" using d by (simp add: unat_of_nat)
  also have "\<dots> = d" using d by (simp add: and_7f_nat)
  finally show ?thesis .
qed

lemma byte_cont_low7: "unat (((b::byte) OR 0x80) AND 0x7F) = unat (b AND 0x7F)"
proof -
  have n: "(0x7F::byte) = mask 7"
    by (simp add: mask_eq_exp_minus_1)
  have "(b OR 0x80) AND 0x7F = b AND 0x7F"
    unfolding n by (rule bit_word_eqI) (auto simp: bit_simps bit_128_int)
  then show ?thesis by simp
qed

lemma byte_cont_flag: "((b::byte) OR 0x80) AND 0x80 > 0"
proof -
  have "(b OR 0x80) AND 0x80 = 0x80"
    by (rule bit_word_eqI) (auto simp: bit_simps)
  then show ?thesis by simp
qed

lemma byte_last_flag: "d < 128 \<Longrightarrow> \<not> ((of_nat d :: byte) AND 0x80 > 0)"
proof -
  assume d: "d < 128"
  have "unat ((of_nat d :: byte) AND 0x80) = unat (of_nat d :: byte) AND unat (0x80 :: byte)"
    by (simp only: unsigned_and_eq)
  also have "\<dots> = d AND 128" using d by (simp add: unat_of_nat)
  also have "\<dots> = 0"
  proof -
    have "take_bit 7 d AND 128 = 0"
      by (rule bit_eqI) (auto simp: bit_simps bit_128_nat)
    then show ?thesis using d by (simp add: take_bit_eq_mod)
  qed
  finally have "(of_nat d :: byte) AND 0x80 = 0" by (simp add: unat_eq_0)
  then show ?thesis by simp
qed

lemma groups7_0 [simp]: "groups7 0 = []"
  by (simp add: groups7.simps)

lemma groups7_pos: "0 < x \<Longrightarrow> groups7 x = groups7 (x div 128) @ [of_nat (x mod 128)]"
  by (subst groups7.simps) simp

lemma emit_integer_loop_groups:
  "emit_integer_loop x bufpos acc over =
     (bufpos - int (length (groups7 x)), groups7 x @ acc,
      over \<or> (groups7 x \<noteq> [] \<and> bufpos + 1 < int (length (groups7 x))))"
proof (induction x bufpos acc over rule: emit_integer_loop.induct)
  case (1 integer bufpos buffer over)
  show ?case
  proof (cases "integer > 0")
    case False
    then show ?thesis by (simp add: emit_integer_loop.simps)
  next
    case pos: True
    have "emit_integer_loop integer bufpos buffer over =
        emit_integer_loop (drop_bit 7 integer) (bufpos - 1) (of_nat (integer AND 0x7F) # buffer)
          (over \<or> bufpos < 0)"
      using pos by (simp add: emit_integer_loop.simps [of integer])
    also have "\<dots> = (bufpos - 1 - int (length (groups7 (drop_bit 7 integer))),
        groups7 (drop_bit 7 integer) @ of_nat (integer AND 0x7F) # buffer,
        (over \<or> bufpos < 0) \<or> (groups7 (drop_bit 7 integer) \<noteq> [] \<and>
           bufpos - 1 + 1 < int (length (groups7 (drop_bit 7 integer)))))"
      by (rule 1 [OF pos])
    finally show ?thesis
      using pos by (auto simp: groups7_pos [of integer] drop_bit_eq_div and_7f_nat)
  qed
qed

lemma groups7_length_le: "x < 2 ^ (7 * n) \<Longrightarrow> length (groups7 x) \<le> n"
proof (induction n arbitrary: x)
  case 0
  then show ?case by simp
next
  case (Suc n)
  show ?case
  proof (cases "x = 0")
    case True then show ?thesis by simp
  next
    case False
    have "x div 128 < 2 ^ (7 * n)"
      using Suc.prems by (simp add: less_mult_imp_div_less power_add mult.commute)
    from Suc.IH [OF this] show ?thesis using False by (simp add: groups7_pos)
  qed
qed

lemma groups7_length_ge: "groups7 x \<noteq> [] \<Longrightarrow> 2 ^ (7 * (length (groups7 x) - 1)) \<le> x"
proof (induction x rule: groups7.induct)
  case (1 x)
  then have pos: "0 < x" by (cases "x = 0") simp_all
  show ?case
  proof (cases "groups7 (x div 128) = []")
    case True
    then show ?thesis using pos by (simp add: groups7_pos)
  next
    case False
    define k where "k = length (groups7 (x div 128))"
    from 1(1) [OF _ False] pos have ih: "2 ^ (7 * (k - 1)) \<le> x div 128"
      by (simp add: k_def)
    have k: "1 \<le> k" using False by (cases "groups7 (x div 128)") (simp_all add: k_def)
    then have "7 * k = 7 * (k - 1) + 7" by simp
    then have "(2::nat) ^ (7 * k) = 2 ^ (7 * (k - 1)) * 128"
      by (simp add: power_add)
    also have "\<dots> \<le> x div 128 * 128"
      using ih by simp
    also have "\<dots> \<le> x"
      by simp
    finally show ?thesis
      using pos by (simp add: groups7_pos k_def)
  qed
qed

lemma emit_integer_vlq:
  "sieve_binary_emit_integer sz blk v =
     (blk @ vlq v, length blk, sz < length (groups7 (v div 128)))"
proof -
  have "emit_integer_loop (drop_bit 7 v) (int (sz + 1) - 1 - 1) [of_nat (v AND 0x7F)] False =
     (int sz - 1 - int (length (groups7 (v div 128))),
      groups7 (v div 128) @ [of_nat (v mod 128)],
      sz < length (groups7 (v div 128)))"
    by (subst emit_integer_loop_groups) (auto simp: drop_bit_eq_div and_7f_nat)
  then show ?thesis
    by (auto simp: sieve_binary_emit_integer_def Let_def vlq_def emit_data_raw_def buffer_append_def)
qed

lemma read_integer_loop_groups:
  assumes "code m = pre @ cs @ l # rest"
      and "\<forall>c \<in> set cs. c AND 0x80 > 0" and "\<not> l AND 0x80 > 0"
      and "length (code m) < 2 ^ 64"
      and "int (7 * length cs) < bits + 7"
      and "a = length pre"
  shows "read_integer_loop m sz a acc bits st =
     Outcome True (a + length cs + 1) (Some (foldl (take_group sz) acc cs OR unat (l AND 0x7F))) st"
  using assms
proof (induction cs arbitrary: a acc bits st pre)
  case Nil
  then have "ADDR_DATA_AT m a = l" "in_code m a"
    by (simp_all add: ADDR_DATA_AT_def in_code_def)
  then show ?case using Nil.prems(3) by (subst read_integer_loop.simps) simp
next
  case (Cons c cs)
  have at: "ADDR_DATA_AT m a = c" "in_code m a" "a < length (code m)"
    using Cons.prems by (simp_all add: ADDR_DATA_AT_def in_code_def nth_append)
  have left: "ADDR_BYTES_LEFT m a > 0"
    using at Cons.prems by (simp add: bytes_left_in)
  have bits: "bits > 0" using Cons.prems by simp
  have c: "c AND 0x80 > 0" using Cons.prems by simp
  have "read_integer_loop m sz a acc bits st =
        read_integer_loop m sz (a + 1) (take_group sz acc c) (bits - 7) st"
    using at left bits c by (subst read_integer_loop.simps) (simp add: take_group_def)
  also have "\<dots> = Outcome True (a + 1 + length cs + 1)
        (Some (foldl (take_group sz) (take_group sz acc c) cs OR unat (l AND 0x7F))) st"
    by (rule Cons.IH [where pre = "pre @ [c]"]) (use Cons.prems in auto)
  finally show ?case by simp
qed

lemma take_group_cont:
  assumes "d < 128" "(k * 128 + d) * 128 < 2 ^ (8 * sz)"
  shows "take_group sz (k * 128) (of_nat d OR 0x80) = (k * 128 + d) * 128"
  using assms by (simp add: take_group_def byte_cont_low7 byte_low7 or_low7_nat push_bit_eq_mult)

lemma foldl_take_group_groups7:
  "x * 128 < 2 ^ (8 * sz) \<Longrightarrow>
   foldl (take_group sz) 0 (map (\<lambda>b. b OR 0x80) (groups7 x)) = x * 128"
proof (induction x rule: groups7.induct)
  case (1 x)
  show ?case
  proof (cases "x = 0")
    case True
    then show ?thesis by simp
  next
    case False
    have "x div 128 * 128 \<le> x" by simp
    then have small: "x div 128 * 128 < 2 ^ (8 * sz)" using 1(2) by simp
    have x: "x div 128 * 128 + x mod 128 = x" by simp
    have "foldl (take_group sz) 0 (map (\<lambda>b. b OR 0x80) (groups7 x)) =
          take_group sz (x div 128 * 128) (of_nat (x mod 128) OR 0x80)"
      using False 1(1) [OF False small] by (simp add: groups7_pos)
    also have "\<dots> = (x div 128 * 128 + x mod 128) * 128"
    proof (rule take_group_cont)
      show "x mod 128 < 128" by simp
      show "(x div 128 * 128 + x mod 128) * 128 < 2 ^ (8 * sz)"
        unfolding x by (rule 1(2))
    qed
    finally show ?thesis by (simp only: x)
  qed
qed

lemma length_vlq: "length (vlq v) = length (groups7 (v div 128)) + 1"
  by (simp add: vlq_def)

lemma read_integer_vlq:
  assumes m: "code m = pre @ vlq v @ rest" and v: "v < 2 ^ (8 * sz)"
      and mem: "length (code m) < 2 ^ 64"
  shows "sieve_binary_read_integer sz m (length pre) =
           Outcome True (length pre + length (vlq v)) (Some v) False"
proof -
  let ?cs = "map (\<lambda>b. b OR 0x80) (groups7 (v div 128))"
  let ?l = "of_nat (v mod 128) :: byte"
  have code: "code m = pre @ ?cs @ ?l # rest" by (simp add: m vlq_def)
  have conts: "\<forall>c \<in> set ?cs. c AND 0x80 > 0" by (simp add: byte_cont_flag)
  have last: "\<not> ?l AND 0x80 > 0" by (rule byte_last_flag) simp
  have le: "v div 128 * 128 \<le> v" by simp
  have bits: "int (7 * length ?cs) < int (sz * 8) + 7"
  proof (cases "groups7 (v div 128) = []")
    case True then show ?thesis by simp
  next
    case False
    define k where "k = length (groups7 (v div 128))"
    have k: "1 \<le> k" using False by (cases "groups7 (v div 128)") (simp_all add: k_def)
    then have "7 * k = 7 * (k - 1) + 7" by simp
    then have "(2::nat) ^ (7 * k) = 2 ^ (7 * (k - 1)) * 128" by (simp add: power_add)
    also have "\<dots> \<le> v div 128 * 128"
      using groups7_length_ge [OF False] by (simp add: k_def)
    also have "\<dots> < 2 ^ (8 * sz)" using le v by simp
    finally have "7 * k < 8 * sz" by simp
    then show ?thesis by (simp add: k_def)
  qed
  have left: "ADDR_BYTES_LEFT m (length pre) \<noteq> 0"
    using mem by (simp add: bytes_left_in m length_vlq)
  have "read_integer_loop m sz (length pre) 0 (int (sz * 8)) False =
     Outcome True (length pre + length ?cs + 1)
       (Some (foldl (take_group sz) 0 ?cs OR unat (?l AND 0x7F))) False"
    by (rule read_integer_loop_groups [OF code conts last mem bits]) simp
  moreover have "foldl (take_group sz) 0 ?cs = v div 128 * 128"
    by (rule foldl_take_group_groups7) (use le v in simp)
  moreover have "v div 128 * 128 OR unat (?l AND 0x7F) = v"
    by (simp add: byte_low7 or_low7_nat)
  ultimately show ?thesis
    using left by (simp add: sieve_binary_read_integer_def length_vlq)
qed

lemma emit_string_eq:
  assumes sz: "4 \<le> sz" and len: "length s < 2 ^ 32"
  shows "sieve_binary_emit_string sz sblock s =
           (sblock @ vlq (length s) @ s @ [0], length sblock, False)"
proof -
  have "(2::nat) ^ 32 \<le> 2 ^ (8 * sz)" using sz by (intro power_increasing) simp_all
  then have cast: "length s mod 2 ^ (8 * sz) = length s" using len by simp
  have "length s div 128 < 2 ^ (7 * 4)" using len by simp
  then have "length (groups7 (length s div 128)) \<le> 4" by (rule groups7_length_le)
  then have "\<not> sz < length (groups7 (length s div 128))" using sz by simp
  then show ?thesis
    by (simp add: sieve_binary_emit_string_def sieve_binary_emit_dynamic_data_def cast
        emit_integer_vlq emit_data_raw_def buffer_append_def)
qed

lemma read_string_at:
  assumes sz: "4 \<le> sz" and len: "length s < 2 ^ 32"
      and m: "code m = pre @ vlq (length s) @ s @ t # rest"
      and mem: "length (code m) < 2 ^ 64"
  shows "sieve_binary_read_string sz m (length pre) =
           (if t \<noteq> 0 then Outcome False (length pre + length (vlq (length s)) + length s) (Some s) False
            else Outcome True (length pre + length (vlq (length s)) + length s + 1) (Some s) False)"
proof -
  let ?a = "length pre + length (vlq (length s))"
  have "(2::nat) ^ 32 \<le> 2 ^ (8 * sz)" using sz by (intro power_increasing) simp_all
  then have v: "length s < 2 ^ (8 * sz)" using len by simp
  have "code m = pre @ vlq (length s) @ (s @ t # rest)" by (simp add: m)
  from read_integer_vlq [OF this v mem]
  have ri: "sieve_binary_read_integer sz m (length pre) = Outcome True ?a (Some (length s)) False" .
  have un: "unat (of_nat (length s) :: 32 word) = length s"
    unfolding unat_of_nat using len by simp
  have ru: "sieve_binary_read_unsigned sz m (length pre) =
      Outcome True ?a (Some (of_nat (length s))) False"
    by (simp add: sieve_binary_read_unsigned_def ri)
  have left: "ADDR_BYTES_LEFT m ?a = length s + 1 + length rest"
    using mem by (subst bytes_left_in) (simp_all add: m)
  have str: "map (ADDR_DATA_AT m) [?a ..< ?a + length s] = s"
    by (rule nth_equalityI) (simp_all add: ADDR_DATA_AT_def m nth_append)
  have t: "ADDR_CODE_AT m (?a + length s) = sint t" "in_code m (?a + length s)"
    by (simp_all add: ADDR_CODE_AT_def ADDR_DATA_AT_def in_code_def m nth_append)
  have fit: "\<not> length (code m) < ?a + length s" by (simp add: m)
  show ?thesis
    unfolding sieve_binary_read_string_def ru
    by (simp add: un left str t fit Let_def signed_eq_0_iff del: upt_add_eq_append)
qed

text \<open>\<open>vlq v\<close> has the least number of groups that hold \<open>v\<close>.\<close>

lemma groups7_upper: "x < 2 ^ (7 * length (groups7 x))"
proof (induction x rule: groups7.induct)
  case (1 x)
  show ?case
  proof (cases "x = 0")
    case True
    then show ?thesis by simp
  next
    case False
    define k where "k = length (groups7 (x div 128))"
    from 1 [OF False] have "x div 128 < 2 ^ (7 * k)" by (simp add: k_def)
    then have "x < 2 ^ (7 * k) * 128"
      by (simp add: div_less_iff_less_mult)
    also have "\<dots> = 2 ^ (7 * (k + 1))" by (simp add: power_add)
    finally show ?thesis using False by (simp add: groups7_pos k_def)
  qed
qed

lemma vlq_minimal:
  "v < 2 ^ (7 * length (vlq v))
   \<and> (1 < length (vlq v) \<longrightarrow> 2 ^ (7 * (length (vlq v) - 1)) \<le> v)"
proof -
  define k where "k = length (groups7 (v div 128))"
  have "v div 128 < 2 ^ (7 * k)" unfolding k_def by (rule groups7_upper)
  then have "v < 2 ^ (7 * k) * 128" by (simp add: div_less_iff_less_mult)
  also have "\<dots> = 2 ^ (7 * (k + 1))" by (simp add: power_add)
  finally have up: "v < 2 ^ (7 * length (vlq v))" by (simp add: length_vlq k_def)
  have low: "2 ^ (7 * (length (vlq v) - 1)) \<le> v" if "1 < length (vlq v)"
  proof -
    from that have ne: "groups7 (v div 128) \<noteq> []" by (auto simp: length_vlq)
    then have k: "1 \<le> k" by (cases "groups7 (v div 128)") (simp_all add: k_def)
    then have "7 * k = 7 * (k - 1) + 7" by simp
    then have "(2::nat) ^ (7 * k) = 2 ^ (7 * (k - 1)) * 128" by (simp add: power_add)
    also have "\<dots> \<le> v div 128 * 128"
      using groups7_length_ge [OF ne] by (simp add: k_def)
    also have "\<dots> \<le> v" by simp
    finally show ?thesis by (simp add: length_vlq k_def)
  qed
  show ?thesis using up low by blast
qed

lemma groups7_fits_iff: "length (groups7 x) \<le> n \<longleftrightarrow> x < 2 ^ (7 * n)"
proof
  assume "length (groups7 x) \<le> n"
  then have "(2::nat) ^ (7 * length (groups7 x)) \<le> 2 ^ (7 * n)"
    by (intro power_increasing) simp_all
  with groups7_upper [of x] show "x < 2 ^ (7 * n)" by (rule less_le_trans)
qed (rule groups7_length_le)

lemma byte_cont_value: "d < 128 \<Longrightarrow> unat ((of_nat d :: byte) OR 0x80) = d + 128"
proof -
  assume d: "d < 128"
  have "unat ((of_nat d :: byte) OR 0x80) = unat (of_nat d :: byte) OR unat (0x80 :: byte)"
    by (simp only: unsigned_or_eq)
  also have "\<dots> = d OR 128" using d by (simp add: unat_of_nat)
  also have "\<dots> = 1 * 128 OR d" by (simp add: or.commute)
  also have "\<dots> = 1 * 128 + d" using d by (rule or_low7_nat)
  finally show ?thesis by simp
qed

lemma groups7_nth:
  "i < length (groups7 x) \<Longrightarrow>
   groups7 x ! i = of_nat (x div 128 ^ (length (groups7 x) - 1 - i) mod 128)"
proof (induction x arbitrary: i rule: groups7.induct)
  case (1 x)
  then have pos: "0 < x" by (cases "x = 0") simp_all
  define k where "k = length (groups7 (x div 128))"
  have len: "length (groups7 x) = k + 1" using pos by (simp add: groups7_pos k_def)
  show ?case
  proof (cases "i < k")
    case True
    then have "groups7 x ! i = groups7 (x div 128) ! i"
      using pos by (simp add: groups7_pos nth_append k_def)
    also have "\<dots> = of_nat (x div 128 div 128 ^ (k - 1 - i) mod 128)"
      using 1(1) [of i] pos True by (simp add: k_def)
    also have "x div 128 div 128 ^ (k - 1 - i) = x div 128 ^ Suc (k - 1 - i)"
      by (simp add: div_mult2_eq)
    also have "Suc (k - 1 - i) = length (groups7 x) - 1 - i"
      using True by (simp add: len)
    finally show ?thesis .
  next
    case False
    then have "i = k" using 1(2) by (simp add: len)
    then show ?thesis using pos by (simp add: groups7_pos nth_append k_def)
  qed
qed

lemma vlq_nth:
  assumes "i < length (vlq v)"
  shows "unat (vlq v ! i) =
     v div 128 ^ (length (vlq v) - 1 - i) mod 128 + (if i + 1 < length (vlq v) then 128 else 0)"
proof -
  define k where "k = length (groups7 (v div 128))"
  have len: "length (vlq v) = k + 1" by (simp add: length_vlq k_def)
  show ?thesis
  proof (cases "i < k")
    case True
    have "vlq v ! i = groups7 (v div 128) ! i OR 0x80"
      using True by (simp add: vlq_def nth_append k_def)
    also have "groups7 (v div 128) ! i = of_nat (v div 128 div 128 ^ (k - 1 - i) mod 128)"
      using True groups7_nth [of i "v div 128"] by (simp add: k_def)
    also have "v div 128 div 128 ^ (k - 1 - i) = v div 128 ^ Suc (k - 1 - i)"
      by (simp add: div_mult2_eq)
    also have "Suc (k - 1 - i) = k - i" using True by simp
    finally have "unat (vlq v ! i) = v div 128 ^ (k - i) mod 128 + 128"
      by (simp add: byte_cont_value)
    then show ?thesis using True by (simp add: len)
  next
    case False
    then have i: "i = k" using assms by (simp add: len)
    then have "vlq v ! i = of_nat (v mod 128)" by (simp add: vlq_def nth_append k_def)
    then show ?thesis using i by (simp add: len unat_of_nat)
  qed
qed

text \<open>
  C2.  For every number type (of \<open>sz\<close> bytes) and every number \<open>v\<close> it holds,
  \<open>sieve_binary_emit_integer\<close> appends the bytes \<open>vlq v\<close> and returns the address of the
  first; \<open>sieve_binary_read_integer\<close> at that address, whatever was emitted behind the
  number, succeeds, yields \<open>v\<close>, leaves the cursor behind the last of these bytes and loads
  nothing outside the block.  The encoding has the least number of groups of seven bits
  that hold \<open>v\<close> (one group for 0); byte \<open>i\<close> carries the group of weight
  \<open>128 ^ (length - 1 - i)\<close>, the most significant first, and the continuation bit \<open>0x80\<close> is
  set on every byte but the last.  The third component of the emitter's result records that
  it stores in front of its staging array exactly when \<open>v\<close> does not fit
  \<open>7 * (sz + 1)\<close> bits; the bytes emitted and read back are as stated there too.  The
  buffer is taken to fit an address space of 64 bits.
\<close>

theorem integer_roundtrip:
  assumes v: "v < 2 ^ (8 * sz)"
      and mem: "length sblock + length (vlq v) + length rest < 2 ^ 64"
  shows "sieve_binary_emit_integer sz sblock v =
           (sblock @ vlq v, length sblock, \<not> v < 2 ^ (7 * (sz + 1)))
       \<and> sieve_binary_read_integer sz \<lparr>code = sblock @ vlq v @ rest, past = p\<rparr> (length sblock) =
           Outcome True (length sblock + length (vlq v)) (Some v) False
       \<and> v < 2 ^ (7 * length (vlq v))
       \<and> (1 < length (vlq v) \<longrightarrow> 2 ^ (7 * (length (vlq v) - 1)) \<le> v)
       \<and> (\<forall>i < length (vlq v).
            unat (vlq v ! i) =
              v div 128 ^ (length (vlq v) - 1 - i) mod 128 +
              (if i + 1 < length (vlq v) then 128 else 0))"
proof -
  have "v < 2 ^ (7 * (sz + 1)) \<longleftrightarrow> v div 128 < 2 ^ (7 * sz)"
    by (simp add: div_less_iff_less_mult power_add mult.commute)
  also have "\<dots> \<longleftrightarrow> \<not> sz < length (groups7 (v div 128))"
    by (simp add: groups7_fits_iff [symmetric] not_less)
  finally have over: "sz < length (groups7 (v div 128)) \<longleftrightarrow> \<not> v < 2 ^ (7 * (sz + 1))"
    by blast
  have e: "sieve_binary_emit_integer sz sblock v =
           (sblock @ vlq v, length sblock, \<not> v < 2 ^ (7 * (sz + 1)))"
    by (simp add: emit_integer_vlq over)
  have r: "sieve_binary_read_integer sz \<lparr>code = sblock @ vlq v @ rest, past = p\<rparr> (length sblock) =
           Outcome True (length sblock + length (vlq v)) (Some v) False"
    by (rule read_integer_vlq) (use v mem in simp_all)
  show ?thesis
    using e r vlq_minimal [of v] vlq_nth [of _ v] by blast
qed

theorem integer_roundtrip_witness:
  "sieve_binary_emit_integer 4 [9] 300 = ([9, 0x82, 0x2C], 1, False)
   \<and> sieve_binary_read_integer 4 \<lparr>code = [9, 0x82, 0x2C, 7], past = (\<lambda>i. 0)\<rparr> 1 =
       Outcome True 3 (Some 300) False
   \<and> sieve_binary_emit_integer 8 [9] (2 ^ 63) =
       ([9, 0x81, 0x80, 0x80, 0x80, 0x80, 0x80, 0x80, 0x80, 0x80, 0x00], 1, True)
   \<and> sieve_binary_read_integer 8
       \<lparr>code = [9, 0x81, 0x80, 0x80, 0x80, 0x80, 0x80, 0x80, 0x80, 0x80, 0x00], past = (\<lambda>i. 0)\<rparr> 1 =
       Outcome True 11 (Some (2 ^ 63)) False"
proof -
  have a: "vlq 300 = [0x82, 0x2C]"
    by (simp add: vlq_def groups7.simps)
  have b: "vlq 9223372036854775808 = [0x81, 0x80, 0x80, 0x80, 0x80, 0x80, 0x80, 0x80, 0x80, 0x00]"
    by (simp add: vlq_def groups7.simps)
  from integer_roundtrip [of 300 4 "[9]" "[7]" "\<lambda>i. 0"]
    integer_roundtrip [of "2 ^ 63" 8 "[9]" "[]" "\<lambda>i. 0"]
  show ?thesis by (simp add: a b)
qed

text \<open>
  C5.  For a byte string \<open>s\<close>, the empty one included, \<open>sieve_binary_emit_string\<close> appends
  the length as \<open>sieve_binary_emit_integer\<close> encodes it, the bytes of \<open>s\<close> and one zero
  byte, and returns the address of the first of them; \<open>sieve_binary_read_string\<close> at that
  address, whatever was emitted behind the string, succeeds, yields \<open>s\<close>, leaves the cursor
  behind the terminator and loads nothing outside the block.  With any other byte in the
  place of the terminator it fails.  The length of \<open>s\<close> is taken to fit the
  \<open>unsigned int\<close> that receives it, a number to have at least the four bytes of an
  \<open>unsigned int\<close>, and the buffer to fit an address space of 64 bits.
\<close>

theorem string_roundtrip:
  assumes sz: "4 \<le> sz" and len: "length s < 2 ^ 32"
      and mem: "length sblock + length s + length rest + 6 < 2 ^ 64"
  shows "sieve_binary_emit_integer sz sblock (length s) =
           (sblock @ vlq (length s), length sblock, False)
       \<and> sieve_binary_emit_string sz sblock s =
           (sblock @ vlq (length s) @ s @ [0], length sblock, False)
       \<and> sieve_binary_read_string sz
             \<lparr>code = sblock @ vlq (length s) @ s @ [0] @ rest, past = p\<rparr> (length sblock) =
           Outcome True (length sblock + length (vlq (length s)) + length s + 1) (Some s) False
       \<and> (t \<noteq> 0 \<longrightarrow>
           \<not> ok (sieve_binary_read_string sz
                   \<lparr>code = sblock @ vlq (length s) @ s @ [t] @ rest, past = p\<rparr> (length sblock)))"
proof -
  have "length s div 128 < 2 ^ (7 * 4)" using len by simp
  then have g: "length (groups7 (length s div 128)) \<le> 4" by (rule groups7_length_le)
  then have "\<not> sz < length (groups7 (length s div 128))" using sz by simp
  then have ei: "sieve_binary_emit_integer sz sblock (length s) =
      (sblock @ vlq (length s), length sblock, False)"
    by (simp add: emit_integer_vlq)
  have fit: "length (code \<lparr>code = sblock @ vlq (length s) @ s @ u # rest, past = p\<rparr>) < 2 ^ 64" for u
    using mem g by (simp add: length_vlq)
  have rd: "sieve_binary_read_string sz
        \<lparr>code = sblock @ vlq (length s) @ s @ u # rest, past = p\<rparr> (length sblock) =
      (if u \<noteq> 0 then Outcome False (length sblock + length (vlq (length s)) + length s) (Some s) False
       else Outcome True (length sblock + length (vlq (length s)) + length s + 1) (Some s) False)" for u
    by (rule read_string_at [OF sz len _ fit]) simp
  show ?thesis
    using ei emit_string_eq [OF sz len, of sblock] rd [of 0] rd [of t] by simp
qed

theorem string_roundtrip_witness:
  "sieve_binary_emit_string 8 [9] [0x41, 0x42] = ([9, 2, 0x41, 0x42, 0], 1, False)
   \<and> sieve_binary_read_string 8 \<lparr>code = [9, 2, 0x41, 0x42, 0, 7], past = (\<lambda>i. 0)\<rparr> 1 =
       Outcome True 5 (Some [0x41, 0x42]) False
   \<and> \<not> ok (sieve_binary_read_string 8 \<lparr>code = [9, 2, 0x41, 0x42, 1, 7], past = (\<lambda>i. 0)\<rparr> 1)
   \<and> sieve_binary_emit_string 8 [9] [] = ([9, 0, 0], 1, False)
   \<and> sieve_binary_read_string 8 \<lparr>code = [9, 0, 0], past = (\<lambda>i. 0)\<rparr> 1 =
       Outcome True 3 (Some []) False"
proof -
  have v: "vlq (Suc (Suc 0)) = [2]" "vlq 0 = [0]" by (simp_all add: vlq_def)
  from string_roundtrip [of 8 "[0x41, 0x42]" "[9]" "[7]" "\<lambda>i. 0" 1]
    string_roundtrip [of 8 "[]" "[9]" "[]" "\<lambda>i. 0" 1]
  show ?thesis by (simp add: v)
qed

section \<open>Where the code leaves its documentation\<close>

text \<open>The readers of a byte, an opcode, an offset, an extension and an extension object
  look at the bytes left before they load: from a cursor inside the code they load nothing
  outside the block and leave the cursor inside the code.\<close>

lemma fixed_width_readers_in_bounds:
  assumes "address \<le> length (code m)" and "length (code m) < 2 ^ 64"
  shows "\<not> stray (sieve_binary_read_byte m address)
       \<and> addr (sieve_binary_read_byte m address) \<le> length (code m)
       \<and> \<not> stray (sieve_binary_read_code m address)
       \<and> addr (sieve_binary_read_code m address) \<le> length (code m)
       \<and> \<not> stray (sieve_binary_read_offset m address)
       \<and> addr (sieve_binary_read_offset m address) \<le> length (code m)
       \<and> \<not> ext_stray (sieve_binary_read_extension by_index m address offset)
       \<and> ext_addr (sieve_binary_read_extension by_index m address offset) \<le> length (code m)
       \<and> \<not> snd (snd (sieve_binary_read_extension_object objs m address))
       \<and> fst (snd (sieve_binary_read_extension_object objs m address)) \<le> length (code m)"
proof -
  have four: "(4::nat) = Suc (Suc (Suc (Suc 0)))" by simp
  have loop: "read_offset_loop m 4 (0, address, False) =
      (fst (read_offset_loop m 4 (0, address, False)), address + 4,
       \<not> (in_code m address \<and> in_code m (address + 1) \<and> in_code m (address + 2)
          \<and> in_code m (address + 3)))"
    unfolding four by (auto simp: numeral_3_eq_3 numeral_2_eq_2)
  have b: "\<not> stray (sieve_binary_read_byte m address)
       \<and> addr (sieve_binary_read_byte m address) \<le> length (code m)"
    using assms by (auto simp: sieve_binary_read_byte_def bytes_left_in in_code_def)
  have c: "\<not> stray (sieve_binary_read_code m address)
       \<and> addr (sieve_binary_read_code m address) \<le> length (code m)"
    using assms by (auto simp: sieve_binary_read_code_def bytes_left_in in_code_def)
  have o: "\<not> stray (sieve_binary_read_offset m address)
       \<and> addr (sieve_binary_read_offset m address) \<le> length (code m)"
    using assms by (subst (1 2) sieve_binary_read_offset_def, subst (1 2) loop)
      (auto simp: bytes_left_in in_code_def)
  have e: "\<not> ext_stray (sieve_binary_read_extension by_index m address offset)
       \<and> ext_addr (sieve_binary_read_extension by_index m address offset) \<le> length (code m)"
    using assms by (auto simp: sieve_binary_read_extension_def bytes_left_in in_code_def Let_def
        split: option.splits)
  have x: "\<not> snd (snd (sieve_binary_read_extension_object objs m address))
       \<and> fst (snd (sieve_binary_read_extension_object objs m address)) \<le> length (code m)"
    using assms by (auto simp: sieve_binary_read_extension_object_def bytes_left_in in_code_def Let_def)
  show ?thesis
    using b c o e x by simp
qed

text \<open>\<open>sieve_binary_read_integer\<close> and \<open>sieve_binary_read_string\<close> leave the cursor inside
  the code as long as they load nothing outside the block.\<close>

lemma read_integer_loop_cursor:
  "\<not> stray (read_integer_loop m sz address int_r bits st) \<Longrightarrow>
   addr (read_integer_loop m sz address int_r bits st) \<le> length (code m) \<and> \<not> st"
proof (induction m sz address int_r bits st rule: read_integer_loop.induct)
  case (1 m sz address int_r bits st)
  show ?case
  proof (cases "ADDR_DATA_AT m address AND 0x80 > 0")
    case False
    then show ?thesis
      using 1(2) by (subst (asm) read_integer_loop.simps, subst read_integer_loop.simps)
        (auto simp: in_code_def)
  next
    case c: True
    show ?thesis
    proof (cases "ADDR_BYTES_LEFT m address > 0 \<and> bits > 0")
      case False
      then show ?thesis
        using 1(2) c by (subst (asm) read_integer_loop.simps, subst read_integer_loop.simps)
          (auto simp: in_code_def)
    next
      case True
      have eq: "read_integer_loop m sz address int_r bits st =
          read_integer_loop m sz (address + 1)
             (push_bit 7 (int_r OR unat (ADDR_DATA_AT m address AND 0x7F)) mod 2 ^ (8 * sz))
             (bits - 7) (st \<or> \<not> in_code m address)"
        using c True by (subst read_integer_loop.simps) simp
      from 1(1) [OF c True] 1(2) show ?thesis
        unfolding eq by auto
    qed
  qed
qed

lemma variable_width_readers_cursor:
  assumes "address \<le> length (code m)" and "length (code m) < 2 ^ 64"
  shows "(\<not> stray (sieve_binary_read_integer sz m address) \<longrightarrow>
            addr (sieve_binary_read_integer sz m address) \<le> length (code m))
       \<and> (\<not> stray (sieve_binary_read_string sz m address) \<longrightarrow>
            addr (sieve_binary_read_string sz m address) \<le> length (code m))"
proof -
  have i: "\<not> stray (sieve_binary_read_integer sz m address) \<Longrightarrow>
            addr (sieve_binary_read_integer sz m address) \<le> length (code m)"
    using assms read_integer_loop_cursor [of m sz address 0 "int (sz * 8)" False]
    by (auto simp: sieve_binary_read_integer_def split: if_splits)
  have s: "addr (sieve_binary_read_string sz m address) \<le> length (code m)"
    if ns: "\<not> stray (sieve_binary_read_string sz m address)"
  proof (cases "sieve_binary_read_integer sz m address")
    case (Outcome r a v st)
    have st: "\<not> st"
      using ns Outcome
      by (auto simp: sieve_binary_read_string_def sieve_binary_read_unsigned_def Let_def
          split: if_splits)
    then have a: "a \<le> length (code m)" using i Outcome by simp
    show ?thesis
      using ns a assms(2) Outcome
      by (auto simp: sieve_binary_read_string_def sieve_binary_read_unsigned_def Let_def
          bytes_left_in in_code_def split: if_splits)
  qed
  show ?thesis using i s by blast
qed

text \<open>
  C1.  \<open>sieve_binary_read_string\<close> on the two bytes \<open>01 41\<close> (length 1, payload \<open>A\<close>, no
  terminator): after the length one byte is left where the claim asks for \<open>length + 1\<close>;
  the reader does not fail there, it loads the byte behind the block as the terminator, and
  succeeds when that byte is zero.  \<open>sieve_binary_read_integer\<close> on the one byte \<open>80\<close> loads
  the byte behind the block in its loop test, before it looks at the bytes left.
\<close>

theorem read_string_loads_past_block:
  "sieve_binary_read_string 8 \<lparr>code = [0x01, 0x41], past = p\<rparr> 0 =
     (if p 0 \<noteq> 0 then Outcome False 2 (Some [0x41]) True
      else Outcome True 3 (Some [0x41]) True)
   \<and> stray (sieve_binary_read_integer 8 \<lparr>code = [0x80], past = p\<rparr> 0)"
  by (simp add: sieve_binary_read_string_def sieve_binary_read_unsigned_def
      sieve_binary_read_integer_def read_integer_loop.simps ADDR_BYTES_LEFT_def size_t_wrap_def
      ADDR_DATA_AT_def ADDR_CODE_AT_def in_code_def signed_eq_0_iff)

text \<open>
  C6.  For a number of four bytes (32 bits, at most five groups) the six groups
  \<open>81 80 80 80 80 00\<close> are read with success as the number 0; for a number of eight bytes
  (64 bits, at most ten groups) so are the eleven groups \<open>81 80 80 80 80 80 80 80 80 80 00\<close>.
  The bit set in the first group is shifted out.  The guard of the loop refuses one group
  more: seven groups for a number of four bytes.
\<close>

theorem read_integer_accepts_overlong:
  "sieve_binary_read_integer 4 \<lparr>code = [0x81, 0x80, 0x80, 0x80, 0x80, 0x00], past = p\<rparr> 0 =
     Outcome True 6 (Some 0) False
   \<and> sieve_binary_read_integer 8
       \<lparr>code = [0x81, 0x80, 0x80, 0x80, 0x80, 0x80, 0x80, 0x80, 0x80, 0x80, 0x00], past = p\<rparr> 0 =
     Outcome True 11 (Some 0) False
   \<and> \<not> ok (sieve_binary_read_integer 4
            \<lparr>code = [0x81, 0x80, 0x80, 0x80, 0x80, 0x80, 0x00], past = p\<rparr> 0)"
  by (simp add: sieve_binary_read_integer_def read_integer_loop.simps ADDR_BYTES_LEFT_def
      size_t_wrap_def ADDR_DATA_AT_def in_code_def push_bit_eq_mult)

text \<open>
  C7.  A program of three bytes: an opcode whose execute hook decodes one string operand,
  and the operand \<open>01 41\<close> without its terminator.  With a zero byte behind the block
  \<open>sieve_binary_read_string\<close> succeeds and leaves the cursor at 4, and the run ends with
  success and the program counter at 4, above the code size 3.
\<close>

theorem run_leaves_pc_above_code_size:
  "addr (sieve_binary_read_string 8 \<lparr>code = [0x05, 0x01, 0x41], past = (\<lambda>i. 0)\<rparr> 1) = 4
   \<and> sieve_binary_get_code_size \<lparr>code = [0x05, 0x01, 0x41], past = (\<lambda>i. 0)\<rparr> = 3
   \<and> sieve_interpreter_run
       (sieve_operation_read (\<lambda>tag. if tag = 5
          then Some \<lparr>mnemonic = None, dump = None, execute = Some (string_operand_hook 8)\<rparr>
          else None))
       2
       \<lparr>pc = 0, stopped = False, test_result = False,
        sbin = \<lparr>code = [0x05, 0x01, 0x41], past = (\<lambda>i. 0)\<rparr>,
        msgdata = None, result = None\<rparr> () () =
     Some (True,
       \<lparr>pc = 4, stopped = False, test_result = False,
        sbin = \<lparr>code = [0x05, 0x01, 0x41], past = (\<lambda>i. 0)\<rparr>,
        msgdata = None, result = None\<rparr>,
       Some ())"
proof -
  have two: "(2::nat) = Suc (Suc 0)" by simp
  show ?thesis
    unfolding two
    by (simp add: sieve_interpreter_run_def run_loop.simps sieve_interpreter_reset_def
      sieve_interpreter_execute_operation_def sieve_operation_read_def sieve_binary_read_code_def
      string_operand_hook_def sieve_binary_get_code_size_def
      sieve_binary_read_string_def sieve_binary_read_unsigned_def
      sieve_binary_read_integer_def read_integer_loop.simps ADDR_BYTES_LEFT_def size_t_wrap_def
      ADDR_DATA_AT_def ADDR_CODE_AT_def in_code_def)
qed

section \<open>The run loop\<close>

lemma run_loop_exit:
  "stopped interp \<or> \<not> pc interp < sieve_binary_get_code_size (sbin interp) \<Longrightarrow>
   run_loop opread fuel interp = Some (True, interp)"
  by (subst run_loop.simps) auto

lemma run_loop_no_fuel:
  "\<not> stopped interp \<Longrightarrow> pc interp < sieve_binary_get_code_size (sbin interp) \<Longrightarrow>
   run_loop opread 0 interp = None"
  by (subst run_loop.simps) simp

lemma run_loop_turn:
  "\<not> stopped interp \<Longrightarrow> pc interp < sieve_binary_get_code_size (sbin interp) \<Longrightarrow>
   run_loop opread (Suc n) interp =
     (case sieve_interpreter_execute_operation opread interp of
        (r, interp') \<Rightarrow> if \<not> r then Some (False, interp') else run_loop opread n interp')"
  by (subst run_loop.simps) simp

lemma run_loop_success_iff:
  "run_loop opread fuel interp = Some (True, s) \<longleftrightarrow>
     (\<exists>k\<le>fuel. run_steps opread k interp = Some s \<and>
        (stopped s \<or> \<not> pc s < sieve_binary_get_code_size (sbin s)))"
proof (induction fuel arbitrary: interp)
  case 0
  show ?case
  proof (cases "stopped interp \<or> \<not> pc interp < sieve_binary_get_code_size (sbin interp)")
    case True
    then show ?thesis by (auto simp: run_loop_exit)
  next
    case False
    then show ?thesis by (auto simp: run_loop_no_fuel)
  qed
next
  case (Suc n)
  show ?case
  proof (cases "stopped interp \<or> \<not> pc interp < sieve_binary_get_code_size (sbin interp)")
    case True
    have "run_steps opread k interp = Some s \<longleftrightarrow> k = 0 \<and> s = interp" for k
      using True by (cases k) auto
    then show ?thesis using True by (auto simp: run_loop_exit)
  next
    case False
    obtain r i' where ex: "sieve_interpreter_execute_operation opread interp = (r, i')"
      by (cases "sieve_interpreter_execute_operation opread interp")
    have steps: "run_steps opread k interp = Some s \<longleftrightarrow>
        (\<exists>j. k = Suc j \<and> r \<and> run_steps opread j i' = Some s) \<or> (k = 0 \<and> s = interp)" for k
      using False ex by (cases k) auto
    show ?thesis
    proof (cases r)
      case True
      have "run_loop opread (Suc n) interp = run_loop opread n i'"
        using False ex True by (simp add: run_loop_turn)
      then show ?thesis
        using Suc.IH [of i'] False True unfolding steps
        by (auto simp: Suc_le_eq)
    next
      case r: False
      have "run_loop opread (Suc n) interp = Some (False, i')"
        using False ex r by (simp add: run_loop_turn)
      then show ?thesis
        using False r unfolding steps by auto
    qed
  qed
qed

lemma run_loop_failure_iff:
  "run_loop opread fuel interp = Some (False, s') \<longleftrightarrow>
     (\<exists>k<fuel. \<exists>s. run_steps opread k interp = Some s \<and>
        \<not> stopped s \<and> pc s < sieve_binary_get_code_size (sbin s) \<and>
        sieve_interpreter_execute_operation opread s = (False, s'))"
proof (induction fuel arbitrary: interp)
  case 0
  show ?case
  proof (cases "stopped interp \<or> \<not> pc interp < sieve_binary_get_code_size (sbin interp)")
    case True
    then show ?thesis by (auto simp: run_loop_exit)
  next
    case False
    then show ?thesis by (auto simp: run_loop_no_fuel)
  qed
next
  case (Suc n)
  show ?case
  proof (cases "stopped interp \<or> \<not> pc interp < sieve_binary_get_code_size (sbin interp)")
    case True
    have "run_steps opread k interp = Some s \<longleftrightarrow> k = 0 \<and> s = interp" for k s
      using True by (cases k) auto
    then show ?thesis using True by (auto simp: run_loop_exit)
  next
    case False
    obtain r i' where ex: "sieve_interpreter_execute_operation opread interp = (r, i')"
      by (cases "sieve_interpreter_execute_operation opread interp")
    have steps: "run_steps opread k interp = Some s \<longleftrightarrow>
        (\<exists>j. k = Suc j \<and> r \<and> run_steps opread j i' = Some s) \<or> (k = 0 \<and> s = interp)" for k s
      using False ex by (cases k) auto
    show ?thesis
    proof (cases r)
      case True
      have "run_loop opread (Suc n) interp = run_loop opread n i'"
        using False ex True by (simp add: run_loop_turn)
      then show ?thesis
        using Suc.IH [of i'] False True ex unfolding steps
        by (auto simp: less_Suc_eq_0_disj)
    next
      case r: False
      have "run_loop opread (Suc n) interp = Some (False, i')"
        using False ex r by (simp add: run_loop_turn)
      then show ?thesis
        using False r ex unfolding steps by auto
    qed
  qed
qed

text \<open>
  How \<open>sieve_interpreter_run\<close> ends.  It starts from the reset interpreter with the message
  and the result bound.  It returns \<open>TRUE\<close> exactly when, after some number of loop turns
  whose operations all returned \<open>TRUE\<close>, the loop test ends the run: the stopped flag is
  set, or the program counter is no longer below the code size; the bindings are then
  cleared.  It returns \<open>FALSE\<close> exactly when, after some number of such turns, the loop is
  entered once more and the operation returns \<open>FALSE\<close>; the run ends at once, with the
  interpreter as that operation left it.  An operation returns \<open>FALSE\<close> exactly when no
  opcode is found at the program counter, or the opcode has no execute hook, or its execute
  hook returns \<open>FALSE\<close>.
\<close>

lemma run_reports_success_or_failure:
  "(let start = (sieve_interpreter_reset interp)\<lparr>msgdata := Some md, result := Some res\<rparr> in
    (sieve_interpreter_run opread fuel interp md res = Some (True, I, R) \<longleftrightarrow>
       (\<exists>k\<le>fuel. \<exists>s. run_steps opread k start = Some s
          \<and> (stopped s \<or> sieve_binary_get_code_size (sbin s) \<le> pc s)
          \<and> I = s\<lparr>result := None, msgdata := None\<rparr> \<and> R = result s))
    \<and> (sieve_interpreter_run opread fuel interp md res = Some (False, I, R) \<longleftrightarrow>
       (\<exists>k<fuel. \<exists>s. run_steps opread k start = Some s
          \<and> \<not> stopped s \<and> pc s < sieve_binary_get_code_size (sbin s)
          \<and> sieve_interpreter_execute_operation opread s = (False, I) \<and> R = result I)))
   \<and> (\<not> fst (sieve_interpreter_execute_operation opread s0) \<longleftrightarrow>
        (case opread (sbin s0) (pc s0) of
           (opcode, a) \<Rightarrow>
             (case opcode of
                None \<Rightarrow> True
              | Some opc \<Rightarrow>
                  (case execute opc of
                     None \<Rightarrow> True
                   | Some hook \<Rightarrow> \<not> fst (hook (s0\<lparr>pc := a\<rparr>))))))"
proof -
  define start where "start = (sieve_interpreter_reset interp)\<lparr>msgdata := Some md, result := Some res\<rparr>"
  have t: "sieve_interpreter_run opread fuel interp md res = Some (True, I, R) \<longleftrightarrow>
      (\<exists>s. run_loop opread fuel start = Some (True, s)
         \<and> I = s\<lparr>result := None, msgdata := None\<rparr> \<and> R = result s)"
    by (auto simp: sieve_interpreter_run_def start_def split: option.splits)
  have f: "sieve_interpreter_run opread fuel interp md res = Some (False, I, R) \<longleftrightarrow>
      (run_loop opread fuel start = Some (False, I) \<and> R = result I)"
    by (auto simp: sieve_interpreter_run_def start_def split: option.splits)
  have 1: "sieve_interpreter_run opread fuel interp md res = Some (True, I, R) \<longleftrightarrow>
       (\<exists>k\<le>fuel. \<exists>s. run_steps opread k start = Some s
          \<and> (stopped s \<or> sieve_binary_get_code_size (sbin s) \<le> pc s)
          \<and> I = s\<lparr>result := None, msgdata := None\<rparr> \<and> R = result s)"
    unfolding t run_loop_success_iff by (auto simp: not_less)
  have 2: "sieve_interpreter_run opread fuel interp md res = Some (False, I, R) \<longleftrightarrow>
       (\<exists>k<fuel. \<exists>s. run_steps opread k start = Some s
          \<and> \<not> stopped s \<and> pc s < sieve_binary_get_code_size (sbin s)
          \<and> sieve_interpreter_execute_operation opread s = (False, I) \<and> R = result I)"
    unfolding f run_loop_failure_iff by auto
  have 3: "\<not> fst (sieve_interpreter_execute_operation opread s0) \<longleftrightarrow>
        (case opread (sbin s0) (pc s0) of
           (opcode, a) \<Rightarrow>
             (case opcode of
                None \<Rightarrow> True
              | Some opc \<Rightarrow>
                  (case execute opc of
                     None \<Rightarrow> True
                   | Some hook \<Rightarrow> \<not> fst (hook (s0\<lparr>pc := a\<rparr>)))))"
    by (simp add: sieve_interpreter_execute_operation_def split: prod.splits option.splits)
  show ?thesis
    using 1 2 3 unfolding Let_def start_def by blast
qed

text \<open>A successful run that ends with the program counter within the code ends with the
  stopped flag set or the program counter at the code size.\<close>

lemma run_success_within_code:
  assumes "sieve_interpreter_run opread fuel interp md res = Some (True, I, R)"
      and "pc I \<le> sieve_binary_get_code_size (sbin I)"
  shows "stopped I \<or> pc I = sieve_binary_get_code_size (sbin I)"
proof -
  from assms(1) run_reports_success_or_failure [of res md interp opread fuel I R interp]
  obtain s where "stopped s \<or> sieve_binary_get_code_size (sbin s) \<le> pc s"
      and "I = s\<lparr>result := None, msgdata := None\<rparr>"
    unfolding Let_def by blast
  then show ?thesis using assms(2) by auto
qed

text \<open>A run of one turn that the stop primitive ends, and runs that fail at the fetch: on
  \<open>05 09\<close>, where the hook of opcode 5 calls \<open>sieve_interpreter_stop\<close>, the run returns
  \<open>TRUE\<close> with the program counter at 1; where no opcode is known, or opcode 5 has no
  execute hook, it returns \<open>FALSE\<close> with the bindings still in place.\<close>

lemma run_stop_and_fault_examples:
  "sieve_interpreter_run
       (sieve_operation_read (\<lambda>tag. if tag = 5
          then Some \<lparr>mnemonic = None, dump = None,
                      execute = Some (\<lambda>i. (True, sieve_interpreter_stop i))\<rparr>
          else None))
       1
       \<lparr>pc = 7, stopped = True, test_result = True,
        sbin = \<lparr>code = [0x05, 0x09], past = (\<lambda>i. 0)\<rparr>,
        msgdata = None, result = None\<rparr> () () =
     Some (True,
       \<lparr>pc = 1, stopped = True, test_result = False,
        sbin = \<lparr>code = [0x05, 0x09], past = (\<lambda>i. 0)\<rparr>,
        msgdata = None, result = None\<rparr>,
       Some ())
   \<and> sieve_interpreter_run (sieve_operation_read (\<lambda>tag. None)) 1
       \<lparr>pc = 7, stopped = True, test_result = True,
        sbin = \<lparr>code = [0x05, 0x09], past = (\<lambda>i. 0)\<rparr>,
        msgdata = None, result = None\<rparr> () () =
     Some (False,
       \<lparr>pc = 1, stopped = False, test_result = False,
        sbin = \<lparr>code = [0x05, 0x09], past = (\<lambda>i. 0)\<rparr>,
        msgdata = Some (), result = Some ()\<rparr>,
       Some ())
   \<and> sieve_interpreter_run
       (sieve_operation_read (\<lambda>tag. if tag = 5
          then Some \<lparr>mnemonic = None, dump = None, execute = None\<rparr> else None))
       1
       \<lparr>pc = 7, stopped = True, test_result = True,
        sbin = \<lparr>code = [0x05, 0x09], past = (\<lambda>i. 0)\<rparr>,
        msgdata = None, result = None\<rparr> () () =
     Some (False,
       \<lparr>pc = 1, stopped = False, test_result = False,
        sbin = \<lparr>code = [0x05, 0x09], past = (\<lambda>i. 0)\<rparr>,
        msgdata = Some (), result = Some ()\<rparr>,
       Some ())"
  by (simp add: sieve_interpreter_run_def run_loop.simps sieve_interpreter_reset_def
      sieve_interpreter_stop_def
      sieve_interpreter_execute_operation_def sieve_operation_read_def sieve_binary_read_code_def
      sieve_binary_get_code_size_def ADDR_BYTES_LEFT_def size_t_wrap_def
      ADDR_DATA_AT_def in_code_def)

text \<open>
  C8.  A run of the two bytes \<open>05 00\<close>, where opcode 5 decodes one string operand (the empty
  string, its terminator missing) and a zero byte lies behind the block.
  \<open>sieve_binary_read_string\<close> takes that byte as the terminator, so the operation returns
  \<open>TRUE\<close> with the program counter at 3; the loop test then ends the run, which returns
  \<open>TRUE\<close> with the stopped flag clear and the program counter not at the code size 2.
\<close>

theorem run_success_with_pc_beyond_code_size:
  "sieve_interpreter_run
       (sieve_operation_read (\<lambda>tag. if tag = 5
          then Some \<lparr>mnemonic = None, dump = None, execute = Some (string_operand_hook 8)\<rparr>
          else None))
       1
       \<lparr>pc = 0, stopped = False, test_result = False,
        sbin = \<lparr>code = [0x05, 0x00], past = (\<lambda>i. 0)\<rparr>,
        msgdata = None, result = None\<rparr> () () =
     Some (True,
       \<lparr>pc = 3, stopped = False, test_result = False,
        sbin = \<lparr>code = [0x05, 0x00], past = (\<lambda>i. 0)\<rparr>,
        msgdata = None, result = None\<rparr>,
       Some ())
   \<and> sieve_binary_get_code_size \<lparr>code = [0x05, 0x00], past = (\<lambda>i. 0)\<rparr> = 2"
  by (simp add: sieve_interpreter_run_def run_loop.simps sieve_interpreter_reset_def
      sieve_interpreter_execute_operation_def sieve_operation_read_def sieve_binary_read_code_def
      string_operand_hook_def sieve_binary_get_code_size_def
      sieve_binary_read_string_def sieve_binary_read_unsigned_def
      sieve_binary_read_integer_def read_integer_loop.simps ADDR_BYTES_LEFT_def size_t_wrap_def
      ADDR_DATA_AT_def ADDR_CODE_AT_def in_code_def)

section \<open>A program of one keep\<close>

text \<open>
  C9.  The code is the single byte of the keep opcode, and nothing optional follows it:
  \<open>handle_optional_operands\<close> reports success with no side effects and leaves the cursor
  where it is.  Then a run with the stub as result collaborator, started with an empty
  list of actions, hands the stub exactly one keep action, with the empty side effects list
  and the source line of the operation, and returns \<open>TRUE\<close> with the program counter at
  the code size 1.  And whatever the helpers are, \<open>cmd_keep_operation_execute\<close> returns a
  value that is not positive only if \<open>handle_optional_operands\<close> did (\<open>add_keep\<close> is then
  not called) or \<open>add_keep\<close> returned a negative value; otherwise it returns 1 after
  exactly one call of \<open>add_keep\<close>.
\<close>

theorem keep_program_adds_one_keep:
  assumes none_optional: "\<And>i. handle_optional_operands i = (1, i, [])"
      and code: "code (sbin interp) = [b]" and tag: "scast b = keep_tag"
      and fuel: "0 < fuel"
  shows "sieve_interpreter_run
           (sieve_operation_read (\<lambda>tag. if tag = keep_tag
              then Some (keep_opcode get_source_location handle_optional_operands stub_add_keep)
              else None))
           fuel interp md [] =
         Some (True, (sieve_interpreter_reset interp)\<lparr>pc := 1\<rparr>,
               Some [([], get_source_location
                       ((sieve_interpreter_reset interp)\<lparr>pc := 1, msgdata := Some md, result := Some []\<rparr>))])
       \<and> sieve_binary_get_code_size (sbin interp) = 1
       \<and> (case hoo renv of
            (ret, renv1, slist) \<Rightarrow>
              cmd_keep_operation_execute gsl hoo ak renv =
                (if ret \<le> 0 then (ret, renv1)
                 else if fst (ak renv1 slist (gsl renv)) < 0 then (0, snd (ak renv1 slist (gsl renv)))
                 else (1, snd (ak renv1 slist (gsl renv)))))"
proof -
  let ?opread = "sieve_operation_read (\<lambda>tag. if tag = keep_tag
              then Some (keep_opcode get_source_location handle_optional_operands stub_add_keep)
              else None)"
  let ?start = "(sieve_interpreter_reset interp)\<lparr>msgdata := Some md, result := Some []\<rparr>"
  let ?line = "get_source_location
                 ((sieve_interpreter_reset interp)\<lparr>pc := 1, msgdata := Some md, result := Some []\<rparr>)"
  let ?last = "(sieve_interpreter_reset interp)\<lparr>pc := 1, msgdata := Some md,
                 result := Some [([], ?line)]\<rparr>"
  obtain n where n: "fuel = Suc n" using fuel by (cases fuel) auto
  have s: "sbin ?start = sbin interp" "pc ?start = 0" "\<not> stopped ?start"
    by (simp_all add: sieve_interpreter_reset_def)
  have fetch: "?opread (sbin ?start) (pc ?start) =
      (Some (keep_opcode get_source_location handle_optional_operands stub_add_keep), 1)"
    using code tag
    by (simp add: s sieve_operation_read_def sieve_binary_read_code_def ADDR_BYTES_LEFT_def
        size_t_wrap_def ADDR_DATA_AT_def in_code_def)
  have ex: "sieve_interpreter_execute_operation ?opread ?start = (True, ?last)"
    unfolding sieve_interpreter_execute_operation_def fetch
    by (cases interp)
      (simp add: keep_opcode_def hook_of_operation_def cmd_keep_operation_execute_def
        none_optional stub_add_keep_def sieve_interpreter_reset_def)
  have "run_loop ?opread fuel ?start = run_loop ?opread n ?last"
    unfolding n using code by (subst run_loop_turn) (simp_all add: s ex sieve_binary_get_code_size_def)
  also have "\<dots> = Some (True, ?last)"
    using code by (intro run_loop_exit) (simp add: sieve_binary_get_code_size_def sieve_interpreter_reset_def)
  finally have "sieve_interpreter_run ?opread fuel interp md [] =
      Some (True, ?last\<lparr>result := None, msgdata := None\<rparr>, result ?last)"
    by (simp add: sieve_interpreter_run_def)
  then have 1: "sieve_interpreter_run ?opread fuel interp md [] =
         Some (True, (sieve_interpreter_reset interp)\<lparr>pc := 1\<rparr>, Some [([], ?line)])"
    by (cases interp) (simp add: sieve_interpreter_reset_def)
  have 2: "sieve_binary_get_code_size (sbin interp) = 1"
    using code by (simp add: sieve_binary_get_code_size_def)
  have 3: "(case hoo renv of
            (ret, renv1, slist) \<Rightarrow>
              cmd_keep_operation_execute gsl hoo ak renv =
                (if ret \<le> 0 then (ret, renv1)
                 else if fst (ak renv1 slist (gsl renv)) < 0 then (0, snd (ak renv1 slist (gsl renv)))
                 else (1, snd (ak renv1 slist (gsl renv)))))"
    by (auto simp: cmd_keep_operation_execute_def Let_def split: prod.splits)
  show ?thesis using 1 2 3 by blast
qed

theorem keep_program_adds_one_keep_witness:
  "sieve_interpreter_run
     (sieve_operation_read (\<lambda>tag. if tag = 3
        then Some (keep_opcode (\<lambda>i. 12) (\<lambda>i. (1, i, [])) stub_add_keep) else None))
     1
     \<lparr>pc = 0, stopped = False, test_result = False, sbin = \<lparr>code = [3], past = (\<lambda>i. 0)\<rparr>,
      msgdata = None, result = None\<rparr> () [] =
   Some (True,
     \<lparr>pc = 1, stopped = False, test_result = False, sbin = \<lparr>code = [3], past = (\<lambda>i. 0)\<rparr>,
      msgdata = None, result = None\<rparr>,
     Some [([] :: unit list, 12)])"
  using keep_program_adds_one_keep [where handle_optional_operands = "\<lambda>i. (1, i, [] :: unit list)"
      and interp = "\<lparr>pc = 0, stopped = False, test_result = False,
        sbin = \<lparr>code = [3], past = (\<lambda>i. 0)\<rparr>, msgdata = (None :: unit option), result = None\<rparr>"
      and b = 3 and keep_tag = 3 and fuel = 1 and get_source_location = "\<lambda>i. 12" and md = "()"
      and hoo = "\<lambda>i. (1, i, [] :: unit list)" and gsl = "\<lambda>i. 12" and ak = stub_add_keep
      and renv = "\<lparr>pc = 0, stopped = False, test_result = False,
        sbin = \<lparr>code = [3], past = (\<lambda>i. 0)\<rparr>, msgdata = (None :: unit option), result = None\<rparr>"]
  by (simp add: sieve_interpreter_reset_def)

end
